theory Spec2Isabelle
  imports Complex_Main "HOL-Library.Multiset"
begin

section \<open>Data model (internal/models/models.go)\<close>

text \<open>
  Go's \<open>time.Time\<close> is read as a count of nanoseconds, the value whose decimal
  rendering \<open>generateID\<close> uses. A \<open>float64\<close> rate that was decoded from JSON is a
  finite number; it is taken as the exact rational it denotes, so rounding is not part
  of this development. The result of a float64 division is either finite or one of
  \<open>+Inf\<close>, \<open>-Inf\<close>, \<open>NaN\<close> (division by zero never fails in Go); the three are
  kept apart from the finite results as \<open>NonFinite\<close>.
\<close>

type_synonym time = nat

datatype float64 = Finite rat | NonFinite

definition fdiv :: "rat \<Rightarrow> rat \<Rightarrow> float64" where
  "fdiv x y = (if y = 0 then NonFinite else Finite (x / y))"

definition fmul :: "float64 \<Rightarrow> float64 \<Rightarrow> float64" where
  "fmul a b = (case (a, b) of (Finite x, Finite y) \<Rightarrow> Finite (x * y) | _ \<Rightarrow> NonFinite)"

record QuoteRequest =
  ID :: string
  From :: string
  To :: string
  Status :: string
  CreatedAt :: time
  UpdatedAt :: time

record Quote =
  QuoteID :: string
  QuoteFrom :: string
  QuoteTo :: string
  Rate :: float64
  QuoteCreatedAt :: time
  QuoteUpdatedAt :: time

text \<open>
  \<open>ExternalAPIResponse.Rates\<close> is a Go map: it is \<open>nil\<close> (here \<open>None\<close>) when the
  decoded JSON object has no \<open>rates\<close> member or has \<open>null\<close> there.
\<close>

record ExternalAPIResponse =
  Success :: bool
  Rates :: "(string \<rightharpoonup> rat) option"
  Date :: string

datatype error =
    CurrencyNotFound string
  | RequestCreateFailed
  | RequestFailed
  | BadStatus nat
  | ReadBodyFailed
  | UnmarshalFailed
  | SuccessFalse
  | QuoteRequestNotFound
  | PendingQuoteRequestNotFound
  | QuoteNotFound
  | StoreError string

datatype panic = NilMapAssignment | IndexOutOfRange

section \<open>Rate arithmetic (internal/utils/currency.go)\<close>

definition CalculateExchangeRate ::
  "string \<Rightarrow> string \<Rightarrow> (string \<rightharpoonup> rat) \<Rightarrow> error + float64" where
  "CalculateExchangeRate from to usdRates =
     (case usdRates from of
        None \<Rightarrow> Inl (CurrencyNotFound from)
      | Some fromRate \<Rightarrow>
          (case usdRates to of
             None \<Rightarrow> Inl (CurrencyNotFound to)
           | Some toRate \<Rightarrow>
               Inr (if from = ''USD'' then Finite toRate
                    else if to = ''USD'' then fdiv 1 fromRate
                    else fdiv toRate fromRate)))"

section \<open>Rate source (internal/external/external.go)\<close>

text \<open>
  What the HTTP layer answers to the one GET request is an input: the request cannot be
  built, the transport fails (this is also where the client's timeout ends), or a
  response arrives with a status code and a body that cannot be read, cannot be decoded,
  or decodes to an \<open>ExternalAPIResponse\<close>.
\<close>

datatype http_body = ReadError | Unparsable | Parsed ExternalAPIResponse

datatype http_result = RequestBuildError | TransportError | Response nat http_body

datatype 'a go_result = Return 'a | Panic panic

definition GetMultipleExchangeRates ::
  "string list \<Rightarrow> http_result \<Rightarrow> (error + (string \<rightharpoonup> rat)) go_result" where
  "GetMultipleExchangeRates currencies http =
     (if length currencies = 0 then Return (Inr Map.empty)
      else case http of
          RequestBuildError \<Rightarrow> Return (Inl RequestCreateFailed)
        | TransportError \<Rightarrow> Return (Inl RequestFailed)
        | Response code body \<Rightarrow>
            if code \<noteq> 200 then Return (Inl (BadStatus code))
            else (case body of
                ReadError \<Rightarrow> Return (Inl ReadBodyFailed)
              | Unparsable \<Rightarrow> Return (Inl UnmarshalFailed)
              | Parsed apiResp \<Rightarrow>
                  if \<not> Success apiResp then Return (Inl SuccessFalse)
                  else (case Rates apiResp of
                      None \<Rightarrow> Panic NilMapAssignment
                    | Some rates \<Rightarrow> Return (Inr (rates(''USD'' \<mapsto> 1))))))"

text \<open>
  A rate table holds rates relative to USD: where it has an entry for USD, the entry
  is 1. \<open>GetMultipleExchangeRates\<close> writes that entry into every table it gets from
  the response, and the tables of the unit tests have it.
\<close>

definition rate_table :: "(string \<rightharpoonup> rat) \<Rightarrow> bool" where
  "rate_table usdRates \<longleftrightarrow> usdRates ''USD'' = None \<or> usdRates ''USD'' = Some 1"

section \<open>Request store (internal/database/database.go)\<close>

text \<open>
  The store acts on a PostgreSQL database through \<open>db.conn\<close>, reads the wall clock
  with \<open>time.Now()\<close> and writes to a logger. All three are state:
  \<^item> \<open>quote_requests\<close> and \<open>quotes\<close> are the rows of the two tables, in insertion
    order;
  \<^item> \<open>conn_faults\<close> says, for the statements sent from now on and in order, whether the
    connection answers with an error for a reason other than the uniqueness rules
    declared by \<open>createTables\<close> (lost connection, column width, numeric overflow); once
    the list is used up no such error occurs;
  \<^item> \<open>clock\<close> gives the successive readings of \<open>time.Now()\<close> and \<open>ticks\<close> counts the
    readings taken so far;
  \<^item> \<open>logs\<close> holds the lines written at level warning and error (the debug and info
    lines are left out).
\<close>

datatype level = WarnLevel | ErrorLevel

record world =
  quote_requests :: "QuoteRequest list"
  quotes :: "Quote list"
  conn_faults :: "bool list"
  clock :: "nat \<Rightarrow> time"
  ticks :: nat
  logs :: "(level \<times> string) list"

definition time_Now :: "world \<Rightarrow> time \<times> world" where
  "time_Now w = (clock w (ticks w), w\<lparr>ticks := Suc (ticks w)\<rparr>)"

definition conn_fault :: "world \<Rightarrow> bool \<times> world" where
  "conn_fault w =
     (case conn_faults w of [] \<Rightarrow> (False, w) | f # fs \<Rightarrow> (f, w\<lparr>conn_faults := fs\<rparr>))"

definition log_line :: "level \<Rightarrow> string \<Rightarrow> world \<Rightarrow> world" where
  "log_line lvl msg w = w\<lparr>logs := logs w @ [(lvl, msg)]\<rparr>"

text \<open>\<open>fmt.Sprintf("%d", n)\<close> for a number that is not negative.\<close>

fun dec :: "nat \<Rightarrow> string" where
  "dec n = (if n < 10 then [char_of (48 + n)]
            else dec (n div 10) @ [char_of (48 + n mod 10)])"

declare dec.simps [simp del]

definition generateID :: "world \<Rightarrow> string \<times> world" where
  "generateID w = (case time_Now w of (t, w') \<Rightarrow> (dec t, w'))"

text \<open>
  The uniqueness rules of \<open>createTables\<close>: the primary keys, the partial unique index
  \<open>idx_pending_quote_requests\<close> on (from_currency, to_currency) where the status is
  pending, and \<open>UNIQUE(from_currency, to_currency)\<close> on quotes. A statement that would
  break one of them is answered with an error and changes nothing.
\<close>

definition quote_requests_pkey :: "QuoteRequest list \<Rightarrow> bool" where
  "quote_requests_pkey rows = distinct (map ID rows)"

definition idx_pending_quote_requests :: "QuoteRequest list \<Rightarrow> bool" where
  "idx_pending_quote_requests rows =
     distinct (map (\<lambda>r. (From r, To r)) (filter (\<lambda>r. Status r = ''pending'') rows))"

definition quotes_pkey :: "Quote list \<Rightarrow> bool" where
  "quotes_pkey qs = distinct (map QuoteID qs)"

definition quotes_from_to_key :: "Quote list \<Rightarrow> bool" where
  "quotes_from_to_key qs = distinct (map (\<lambda>q. (QuoteFrom q, QuoteTo q)) qs)"

text \<open>
  \<open>pending_conflict rid status rows\<close>: the status to be written is \<open>pending\<close>, and
  for a row with the id \<open>rid\<close> another row, with a different id, is pending for the same
  pair. This is when the partial unique index refuses the status write.
\<close>

definition pending_conflict :: "string \<Rightarrow> string \<Rightarrow> QuoteRequest list \<Rightarrow> bool" where
  "pending_conflict rid status rows \<longleftrightarrow>
     status = ''pending''
     \<and> (\<exists>r\<in>set rows. \<exists>r'\<in>set rows.
           ID r = rid \<and> ID r' \<noteq> rid \<and> Status r' = ''pending''
           \<and> From r' = From r \<and> To r' = To r)"

definition CreateQuoteRequest ::
  "string \<Rightarrow> string \<Rightarrow> world \<Rightarrow> (error + QuoteRequest) \<times> world" where
  "CreateQuoteRequest from to w =
     (case time_Now w of (now, w1) \<Rightarrow>
      case generateID w1 of (rid, w2) \<Rightarrow>
      case conn_fault w2 of (fault, w3) \<Rightarrow>
        let request = \<lparr>ID = rid, From = from, To = to, Status = ''pending'',
                        CreatedAt = now, UpdatedAt = now\<rparr>;
            rows = quote_requests w3 @ [request]
        in if fault \<or> \<not> quote_requests_pkey rows \<or> \<not> idx_pending_quote_requests rows
           then (Inl (StoreError ''failed to create quote request''), w3)
           else (Inr request, w3\<lparr>quote_requests := rows\<rparr>))"

definition set_status :: "string \<Rightarrow> string \<Rightarrow> time \<Rightarrow> QuoteRequest \<Rightarrow> QuoteRequest" where
  "set_status rid status now r =
     (if ID r = rid then r\<lparr>Status := status, UpdatedAt := now\<rparr> else r)"

definition UpdateQuoteRequestStatus ::
  "string \<Rightarrow> string \<Rightarrow> world \<Rightarrow> error option \<times> world" where
  "UpdateQuoteRequestStatus rid status w =
     (case time_Now w of (now, w1) \<Rightarrow>
      case conn_fault w1 of (fault, w2) \<Rightarrow>
        let rows = map (set_status rid status now) (quote_requests w2)
        in if fault \<or> \<not> idx_pending_quote_requests rows
           then (Some (StoreError ''failed to update quote request status''), w2)
           else (None, w2\<lparr>quote_requests := rows\<rparr>))"

definition GetQuoteRequest :: "string \<Rightarrow> world \<Rightarrow> (error + QuoteRequest) \<times> world" where
  "GetQuoteRequest rid w =
     (case conn_fault w of (fault, w1) \<Rightarrow>
        if fault then (Inl (StoreError ''failed to get quote request''), w1)
        else (case find (\<lambda>r. ID r = rid) (quote_requests w1) of
                None \<Rightarrow> (Inl QuoteRequestNotFound, w1)
              | Some r \<Rightarrow> (Inr r, w1)))"

definition GetPendingQuoteRequestByPair ::
  "string \<Rightarrow> string \<Rightarrow> world \<Rightarrow> (error + QuoteRequest) \<times> world" where
  "GetPendingQuoteRequestByPair from to w =
     (case conn_fault w of (fault, w1) \<Rightarrow>
        if fault then (Inl (StoreError ''failed to get pending quote request''), w1)
        else (case find (\<lambda>r. From r = from \<and> To r = to \<and> Status r = ''pending'')
                     (quote_requests w1) of
                None \<Rightarrow> (Inl PendingQuoteRequestNotFound, w1)
              | Some r \<Rightarrow> (Inr r, w1)))"

definition touch :: "string \<Rightarrow> time \<Rightarrow> QuoteRequest \<Rightarrow> QuoteRequest" where
  "touch rid now r = (if ID r = rid then r\<lparr>UpdatedAt := now\<rparr> else r)"

definition CreateOrGetPendingQuoteRequest ::
  "string \<Rightarrow> string \<Rightarrow> world \<Rightarrow> (error + QuoteRequest) \<times> world" where
  "CreateOrGetPendingQuoteRequest from to w =
     (case GetPendingQuoteRequestByPair from to w of
        (Inr existingRequest, w1) \<Rightarrow>
          (case time_Now w1 of (now, w2) \<Rightarrow>
           case conn_fault w2 of (fault, w3) \<Rightarrow>
             if fault
             then (Inr existingRequest,
                   log_line WarnLevel ''Failed to update existing request timestamp'' w3)
             else (Inr existingRequest,
                   w3\<lparr>quote_requests :=
                        map (touch (ID existingRequest) now) (quote_requests w3)\<rparr>))
      | (Inl err, w1) \<Rightarrow> CreateQuoteRequest from to w1)"

definition set_rate :: "string \<Rightarrow> string \<Rightarrow> float64 \<Rightarrow> time \<Rightarrow> Quote \<Rightarrow> Quote" where
  "set_rate from to rate now q =
     (if QuoteFrom q = from \<and> QuoteTo q = to
      then q\<lparr>Rate := rate, QuoteUpdatedAt := now\<rparr> else q)"

definition UpsertQuote ::
  "string \<Rightarrow> string \<Rightarrow> float64 \<Rightarrow> world \<Rightarrow> error option \<times> world" where
  "UpsertQuote from to rate w =
     (case time_Now w of (now, w1) \<Rightarrow>
      case generateID w1 of (qid, w2) \<Rightarrow>
      case conn_fault w2 of (fault, w3) \<Rightarrow>
        if fault then (Some (StoreError ''failed to upsert quote''), w3)
        else if (from, to) \<in> set (map (\<lambda>q. (QuoteFrom q, QuoteTo q)) (quotes w3))
        then (None, w3\<lparr>quotes := map (set_rate from to rate now) (quotes w3)\<rparr>)
        else if qid \<in> set (map QuoteID (quotes w3))
        then (Some (StoreError ''failed to upsert quote''), w3)
        else (None, w3\<lparr>quotes := quotes w3 @
                [\<lparr>QuoteID = qid, QuoteFrom = from, QuoteTo = to, Rate = rate,
                  QuoteCreatedAt = now, QuoteUpdatedAt = now\<rparr>]\<rparr>))"

definition GetQuote :: "string \<Rightarrow> string \<Rightarrow> world \<Rightarrow> (error + Quote) \<times> world" where
  "GetQuote from to w =
     (case conn_fault w of (fault, w1) \<Rightarrow>
        if fault then (Inl (StoreError ''failed to get quote''), w1)
        else (case find (\<lambda>q. QuoteFrom q = from \<and> QuoteTo q = to) (quotes w1) of
                None \<Rightarrow> (Inl QuoteNotFound, w1)
              | Some q \<Rightarrow> (Inr q, w1)))"

text \<open>
  \<open>ORDER BY created_at ASC\<close>: rows with equal creation times come in an order SQL
  leaves open; the stable sort keeps them in insertion order.
\<close>

definition GetPendingQuoteRequests :: "world \<Rightarrow> (error + QuoteRequest list) \<times> world" where
  "GetPendingQuoteRequests w =
     (case conn_fault w of (fault, w1) \<Rightarrow>
        if fault then (Inl (StoreError ''failed to get pending quote requests''), w1)
        else (Inr (sort_key CreatedAt
                     (filter (\<lambda>r. Status r = ''pending'') (quote_requests w1))), w1))"

section \<open>Lifecycle engine (internal/worker/worker.go)\<close>

text \<open>
  The loop \<open>for _, req := range requests\<close> around one status write, which the worker
  runs with four different pairs of status and log message.
\<close>

fun update_each :: "string \<Rightarrow> string \<Rightarrow> QuoteRequest list \<Rightarrow> world \<Rightarrow> world" where
  "update_each status msg [] w = w"
| "update_each status msg (req # reqs) w =
     (case UpdateQuoteRequestStatus (ID req) status w of
        (None, w') \<Rightarrow> update_each status msg reqs w'
      | (Some updateErr, w') \<Rightarrow> update_each status msg reqs (log_line ErrorLevel msg w'))"

definition markAllRequestsAsFailed :: "QuoteRequest list \<Rightarrow> world \<Rightarrow> world" where
  "markAllRequestsAsFailed requests w =
     update_each ''failed'' ''Failed to update request status to failed'' requests w"

text \<open>
  \<open>extractUniqueCurrencies\<close> collects the codes in a Go map and returns its keys in the
  order of the map's iteration, which Go leaves open; of the list only its emptiness
  reaches \<open>GetMultipleExchangeRates\<close> as modelled here (the URL built from it goes to the
  HTTP layer).
\<close>

definition extractUniqueCurrencies :: "QuoteRequest list \<Rightarrow> string list" where
  "extractUniqueCurrencies requests = remdups (concat (map (\<lambda>req. [From req, To req]) requests))"

definition processCurrencyPairWithRates ::
  "string \<Rightarrow> QuoteRequest list \<Rightarrow> (string \<rightharpoonup> rat) \<Rightarrow> world \<Rightarrow> panic option \<times> world" where
  "processCurrencyPairWithRates pair requests usdRates w =
     (let w1 = update_each ''processing''
                 ''Failed to update request status to processing'' requests w
      in case requests of
           [] \<Rightarrow> (Some IndexOutOfRange, w1)
         | req0 # _ \<Rightarrow>
             (case CalculateExchangeRate (From req0) (To req0) usdRates of
                Inl err \<Rightarrow>
                  (None, update_each ''failed'' ''Failed to update request status to failed''
                           requests
                           (log_line ErrorLevel ''Failed to calculate exchange rate'' w1))
              | Inr rate \<Rightarrow>
                  (case UpsertQuote (From req0) (To req0) rate w1 of
                     (Some err, w2) \<Rightarrow>
                       (None, update_each ''failed''
                                ''Failed to update request status to failed'' requests
                                (log_line ErrorLevel ''Failed to save quote to database'' w2))
                   | (None, w2) \<Rightarrow>
                       (None, update_each ''completed''
                                ''Failed to update request status to completed''
                                requests w2))))"

text \<open>
  \<open>currencyPairMap\<close> is a Go map from the string \<open>From + "/" + To\<close> to the requests
  with that key, each list in the order of discovery. It is kept as an association list.
  Go iterates over a map in an order it leaves open: \<open>rank\<close> stands for that order (the
  groups are visited by ascending rank of their keys), and every order is the order of
  some \<open>rank\<close>.
\<close>

definition pairKey :: "QuoteRequest \<Rightarrow> string" where
  "pairKey req = From req @ ''/'' @ To req"

fun map_append :: "string \<Rightarrow> QuoteRequest \<Rightarrow> (string \<times> QuoteRequest list) list
    \<Rightarrow> (string \<times> QuoteRequest list) list" where
  "map_append k req [] = [(k, [req])]"
| "map_append k req ((k', reqs) # m) =
     (if k' = k then (k', reqs @ [req]) # m else (k', reqs) # map_append k req m)"

definition currencyPairMap :: "QuoteRequest list \<Rightarrow> (string \<times> QuoteRequest list) list" where
  "currencyPairMap requests = foldl (\<lambda>m req. map_append (pairKey req) req m) [] requests"

definition range_map :: "(string \<Rightarrow> nat) \<Rightarrow> (string \<times> 'v) list \<Rightarrow> (string \<times> 'v) list" where
  "range_map rank m = sort_key (\<lambda>kv. rank (fst kv)) m"

fun process_groups :: "(string \<times> QuoteRequest list) list \<Rightarrow> (string \<rightharpoonup> rat) \<Rightarrow> world
    \<Rightarrow> panic option \<times> world" where
  "process_groups [] usdRates w = (None, w)"
| "process_groups ((pair, reqs) # groups) usdRates w =
     (case processCurrencyPairWithRates pair reqs usdRates w of
        (Some p, w') \<Rightarrow> (Some p, w')
      | (None, w') \<Rightarrow> process_groups groups usdRates w')"

definition processPendingRequests ::
  "(string \<Rightarrow> nat) \<Rightarrow> http_result \<Rightarrow> world \<Rightarrow> panic option \<times> world" where
  "processPendingRequests rank http w =
     (case GetPendingQuoteRequests w of
        (Inl err, w1) \<Rightarrow>
          (None, log_line ErrorLevel ''Failed to get pending quote requests'' w1)
      | (Inr requests, w1) \<Rightarrow>
          if length requests = 0 then (None, w1)
          else (case GetMultipleExchangeRates (extractUniqueCurrencies requests) http of
              Panic p \<Rightarrow> (Some p, w1)
            | Return (Inl err) \<Rightarrow>
                (None, markAllRequestsAsFailed requests
                         (log_line ErrorLevel ''Failed to get batch exchange rates'' w1))
            | Return (Inr usdRates) \<Rightarrow>
                process_groups (range_map rank (currencyPairMap requests)) usdRates w1))"

section \<open>A sample store\<close>

text \<open>
  Three requests, the first two pending, over an empty quotes table; a healthy
  connection and a clock that advances by one nanosecond per reading.
\<close>

definition sample_requests :: "QuoteRequest list" where
  "sample_requests =
     [\<lparr>ID = ''1001'', From = ''EUR'', To = ''MXN'', Status = ''pending'',
       CreatedAt = 1001, UpdatedAt = 1001\<rparr>,
      \<lparr>ID = ''1002'', From = ''USD'', To = ''EUR'', Status = ''pending'',
       CreatedAt = 1002, UpdatedAt = 1002\<rparr>,
      \<lparr>ID = ''1000'', From = ''EUR'', To = ''MXN'', Status = ''completed'',
       CreatedAt = 1000, UpdatedAt = 1500\<rparr>]"

definition sample_world :: world where
  "sample_world =
     \<lparr>quote_requests = sample_requests, quotes = [], conn_faults = [],
      clock = (\<lambda>n. 2000 + n), ticks = 0, logs = []\<rparr>"

section \<open>The calls made on the store\<close>

text \<open>
  Every exported operation of the store and the engine's cycle, as a value, so that a
  history of the store is a list of calls.
\<close>

datatype store_call =
    Call_CreateQuoteRequest string string
  | Call_CreateOrGetPendingQuoteRequest string string
  | Call_UpdateQuoteRequestStatus string string
  | Call_GetQuoteRequest string
  | Call_GetPendingQuoteRequestByPair string string
  | Call_UpsertQuote string string float64
  | Call_GetQuote string string
  | Call_GetPendingQuoteRequests
  | Call_processPendingRequests "string \<Rightarrow> nat" http_result

fun after_call :: "store_call \<Rightarrow> world \<Rightarrow> world" where
  "after_call (Call_CreateQuoteRequest from to) w = snd (CreateQuoteRequest from to w)"
| "after_call (Call_CreateOrGetPendingQuoteRequest from to) w =
     snd (CreateOrGetPendingQuoteRequest from to w)"
| "after_call (Call_UpdateQuoteRequestStatus rid status) w =
     snd (UpdateQuoteRequestStatus rid status w)"
| "after_call (Call_GetQuoteRequest rid) w = snd (GetQuoteRequest rid w)"
| "after_call (Call_GetPendingQuoteRequestByPair from to) w =
     snd (GetPendingQuoteRequestByPair from to w)"
| "after_call (Call_UpsertQuote from to rate) w = snd (UpsertQuote from to rate w)"
| "after_call (Call_GetQuote from to) w = snd (GetQuote from to w)"
| "after_call Call_GetPendingQuoteRequests w = snd (GetPendingQuoteRequests w)"
| "after_call (Call_processPendingRequests rank http) w =
     snd (processPendingRequests rank http w)"

section \<open>Relations between two states of the requests table\<close>

text \<open>
  \<open>untouched_outside S rows rows'\<close>: the table has the same rows in the same places,
  by id, and a row whose id is not in \<open>S\<close> is the same in every column.
\<close>

definition untouched_outside :: "string set \<Rightarrow> QuoteRequest list \<Rightarrow> QuoteRequest list \<Rightarrow> bool" where
  "untouched_outside S rows rows' =
     list_all2 (\<lambda>r r'. ID r' = ID r \<and> (ID r \<notin> S \<longrightarrow> r' = r)) rows rows'"


definition sample_response :: http_result where
  "sample_response =
     Response 200 (Parsed \<lparr>Success = True,
       Rates = Some [''EUR'' \<mapsto> 17/20, ''MXN'' \<mapsto> 37/2], Date = ''2024-01-01''\<rparr>)"

text \<open>
  \<open>written f rows rows'\<close>: the table has the same rows in the same places, with the
  same id, codes and creation time; a row whose id \<open>f\<close> maps to a status has that
  status, and a row whose id \<open>f\<close> does not map is the same in every column.
\<close>

definition written :: "(string \<rightharpoonup> string) \<Rightarrow> QuoteRequest list \<Rightarrow> QuoteRequest list \<Rightarrow> bool" where
  "written f rows rows' =
     list_all2 (\<lambda>r r'. ID r' = ID r \<and> From r' = From r \<and> To r' = To r
                  \<and> CreatedAt r' = CreatedAt r
                  \<and> (case f (ID r) of None \<Rightarrow> r' = r | Some st \<Rightarrow> Status r' = st))
       rows rows'"

section \<open>Generated quote ids and relations between two states of the quotes table\<close>

text \<open>
  \<open>quote_ids_fresh w\<close>: the ids that \<open>generateID\<close> will render from the coming clock
  readings are not yet keys of the quotes table, and the coming readings differ from one
  another (the clock does not stand still or jump back).
\<close>

definition quote_ids_fresh :: "world \<Rightarrow> bool" where
  "quote_ids_fresh w \<longleftrightarrow>
     (\<forall>n\<ge>ticks w. dec (clock w n) \<notin> set (map QuoteID (quotes w)))
     \<and> (\<forall>m\<ge>ticks w. \<forall>n>m. clock w n \<noteq> clock w m)"

text \<open>
  \<open>upserted g qs qs'\<close>: for a pair that \<open>g\<close> maps to a rate, the quote found for the
  pair in \<open>qs'\<close> has that rate; for every other pair the quote found in \<open>qs'\<close> is the
  one found in \<open>qs\<close>, or there is none in either.
\<close>

definition upserted :: "(string \<times> string \<rightharpoonup> float64) \<Rightarrow> Quote list \<Rightarrow> Quote list \<Rightarrow> bool" where
  "upserted g qs qs' \<longleftrightarrow>
     (\<forall>from to. case g (from, to) of
         None \<Rightarrow> find (\<lambda>q. QuoteFrom q = from \<and> QuoteTo q = to) qs'
                  = find (\<lambda>q. QuoteFrom q = from \<and> QuoteTo q = to) qs
       | Some rate \<Rightarrow> map_option Rate (find (\<lambda>q. QuoteFrom q = from \<and> QuoteTo q = to) qs')
                  = Some rate)"

section \<open>What a cycle writes when the database answers\<close>

text \<open>
  The status a discovered request ends with and the quote written for its pair, as
  functions of the fetched table; \<open>outcomes\<close> and \<open>quote_writes\<close> collect them over
  the groups in the order in which the groups are visited (later writes win).
\<close>

definition cycle_status :: "(string \<rightharpoonup> rat) \<Rightarrow> QuoteRequest \<Rightarrow> string" where
  "cycle_status usdRates req =
     (case CalculateExchangeRate (From req) (To req) usdRates of
        Inl err \<Rightarrow> ''failed'' | Inr rate \<Rightarrow> ''completed'')"

definition pair_quote :: "(string \<rightharpoonup> rat) \<Rightarrow> string \<times> string \<rightharpoonup> float64" where
  "pair_quote usdRates p =
     (case CalculateExchangeRate (fst p) (snd p) usdRates of
        Inl err \<Rightarrow> None | Inr rate \<Rightarrow> Some rate)"

definition cycle_quote :: "(string \<rightharpoonup> rat) \<Rightarrow> QuoteRequest \<Rightarrow> string \<times> string \<rightharpoonup> float64" where
  "cycle_quote usdRates req =
     (\<lambda>p. if p = (From req, To req) then pair_quote usdRates p else None)"

fun outcomes :: "(string \<rightharpoonup> rat) \<Rightarrow> (string \<times> QuoteRequest list) list \<Rightarrow> string \<rightharpoonup> string" where
  "outcomes usdRates [] = Map.empty"
| "outcomes usdRates ((pair, reqs) # groups) =
     (\<lambda>i. if i \<in> ID ` set reqs then Some (cycle_status usdRates (hd reqs)) else None)
       ++ outcomes usdRates groups"

fun quote_writes ::
  "(string \<rightharpoonup> rat) \<Rightarrow> (string \<times> QuoteRequest list) list \<Rightarrow> string \<times> string \<rightharpoonup> float64" where
  "quote_writes usdRates [] = Map.empty"
| "quote_writes usdRates ((pair, reqs) # groups) =
     cycle_quote usdRates (hd reqs) ++ quote_writes usdRates groups"

text \<open>A response of the rate source that leaves MXN out.\<close>

definition partial_response :: http_result where
  "partial_response =
     Response 200 (Parsed \<lparr>Success = True,
       Rates = Some [''EUR'' \<mapsto> 17/20], Date = ''2024-01-01''\<rparr>)"

section \<open>Properties of the rate arithmetic\<close>

lemma CalculateExchangeRate_present:
  "usdRates from = Some ra \<Longrightarrow> usdRates to = Some rb \<Longrightarrow>
   CalculateExchangeRate from to usdRates =
     Inr (if from = ''USD'' then Finite rb
          else if to = ''USD'' then fdiv 1 ra else fdiv rb ra)"
  by (simp add: CalculateExchangeRate_def)

text \<open>
  C1. When both codes are in the table, with rates \<open>ra\<close> for \<open>from\<close> and \<open>rb\<close> for
  \<open>to\<close>, the function returns no error and its value is \<open>rb\<close> when \<open>from\<close> is USD,
  \<open>1 / ra\<close> when \<open>to\<close> is USD, and \<open>rb / ra\<close> when neither is USD. The cases are
  taken in the order in which the specification lists them, so the first one decides
  the pair (USD, USD). The quotients are float64 divisions.
\<close>

theorem C1_crossRate_cases:
  assumes "usdRates from = Some ra" and "usdRates to = Some rb"
  shows "(from = ''USD'' \<longrightarrow> CalculateExchangeRate from to usdRates = Inr (Finite rb))
       \<and> (from \<noteq> ''USD'' \<and> to = ''USD'' \<longrightarrow>
            CalculateExchangeRate from to usdRates = Inr (fdiv 1 ra))
       \<and> (from \<noteq> ''USD'' \<and> to \<noteq> ''USD'' \<longrightarrow>
            CalculateExchangeRate from to usdRates = Inr (fdiv rb ra))"
  using assms by (auto simp: CalculateExchangeRate_def)

theorem C1_crossRate_cases_witness:
  "CalculateExchangeRate ''USD'' ''EUR'' [''USD'' \<mapsto> 1, ''EUR'' \<mapsto> 17/20, ''MXN'' \<mapsto> 37/2]
     = Inr (Finite (17/20))
   \<and> CalculateExchangeRate ''EUR'' ''USD'' [''USD'' \<mapsto> 1, ''EUR'' \<mapsto> 17/20, ''MXN'' \<mapsto> 37/2]
     = Inr (Finite (20/17))
   \<and> CalculateExchangeRate ''EUR'' ''MXN'' [''USD'' \<mapsto> 1, ''EUR'' \<mapsto> 17/20, ''MXN'' \<mapsto> 37/2]
     = Inr (Finite (370/17))"
  using
    C1_crossRate_cases [of "[''USD'' \<mapsto> 1, ''EUR'' \<mapsto> 17/20, ''MXN'' \<mapsto> 37/2]"
      "''USD''" 1 "''EUR''" "17/20"]
    C1_crossRate_cases [of "[''USD'' \<mapsto> 1, ''EUR'' \<mapsto> 17/20, ''MXN'' \<mapsto> 37/2]"
      "''EUR''" "17/20" "''USD''" 1]
    C1_crossRate_cases [of "[''USD'' \<mapsto> 1, ''EUR'' \<mapsto> 17/20, ''MXN'' \<mapsto> 37/2]"
      "''EUR''" "17/20" "''MXN''" "37/2"]
  by (simp add: fdiv_def)

text \<open>
  Every table that the rate source returns is a rate table, also the empty one that it
  returns when no currency is asked for.
\<close>

lemma GetMultipleExchangeRates_rate_table:
  assumes "GetMultipleExchangeRates currencies http = Return (Inr usdRates)"
  shows "rate_table usdRates"
  using assms
  by (auto simp: GetMultipleExchangeRates_def rate_table_def
      split: http_result.splits http_body.splits if_splits option.splits)

text \<open>
  C8. For every code \<open>c\<close> that a rate table holds with a positive rate,
  \<open>CalculateExchangeRate c c\<close> returns exactly 1. For \<open>c\<close> other than USD this is
  the quotient of the rate by itself; for USD it is the table's entry for USD, which a
  rate table has at 1.
\<close>

theorem C8_same_currency:
  assumes "rate_table usdRates" and "usdRates c = Some r" and "0 < r"
  shows "CalculateExchangeRate c c usdRates = Inr (Finite 1)"
  using assms by (auto simp: CalculateExchangeRate_def fdiv_def rate_table_def)

theorem C8_same_currency_witness:
  "CalculateExchangeRate ''EUR'' ''EUR'' [''USD'' \<mapsto> 1, ''EUR'' \<mapsto> 17/20] = Inr (Finite 1)
   \<and> CalculateExchangeRate ''USD'' ''USD'' [''USD'' \<mapsto> 1, ''EUR'' \<mapsto> 17/20] = Inr (Finite 1)"
proof -
  have t: "rate_table [''USD'' \<mapsto> 1, ''EUR'' \<mapsto> 17/20]"
    by (simp add: rate_table_def)
  show ?thesis
    using C8_same_currency [OF t, of "''EUR''" "17/20"] C8_same_currency [OF t, of "''USD''" 1]
    by simp
qed

text \<open>
  C10. For every rate table that holds \<open>a\<close> and \<open>b\<close> with positive rates, both
  directions return a finite rate without error, and the rate from \<open>a\<close> to \<open>b\<close>
  times the rate from \<open>b\<close> to \<open>a\<close> is exactly 1 in rational arithmetic, whichever
  branches the two calls take (\<open>a\<close> is USD, \<open>b\<close> is USD, neither is).
\<close>

theorem C10_round_trip:
  assumes "rate_table usdRates"
    and "usdRates a = Some ra" and "usdRates b = Some rb" and "0 < ra" and "0 < rb"
  shows "\<exists>x y. CalculateExchangeRate a b usdRates = Inr (Finite x)
             \<and> CalculateExchangeRate b a usdRates = Inr (Finite y)
             \<and> x * y = 1"
  using assms by (auto simp: CalculateExchangeRate_def fdiv_def rate_table_def)

theorem C10_round_trip_witness:
  "(\<exists>x y. CalculateExchangeRate ''EUR'' ''MXN''
             [''USD'' \<mapsto> 1, ''EUR'' \<mapsto> 17/20, ''MXN'' \<mapsto> 37/2] = Inr (Finite x)
         \<and> CalculateExchangeRate ''MXN'' ''EUR''
             [''USD'' \<mapsto> 1, ''EUR'' \<mapsto> 17/20, ''MXN'' \<mapsto> 37/2] = Inr (Finite y)
         \<and> x * y = 1)
   \<and> (\<exists>x y. CalculateExchangeRate ''USD'' ''MXN''
             [''USD'' \<mapsto> 1, ''EUR'' \<mapsto> 17/20, ''MXN'' \<mapsto> 37/2] = Inr (Finite x)
         \<and> CalculateExchangeRate ''MXN'' ''USD''
             [''USD'' \<mapsto> 1, ''EUR'' \<mapsto> 17/20, ''MXN'' \<mapsto> 37/2] = Inr (Finite y)
         \<and> x * y = 1)
   \<and> (\<exists>x y. CalculateExchangeRate ''EUR'' ''USD''
             [''USD'' \<mapsto> 1, ''EUR'' \<mapsto> 17/20, ''MXN'' \<mapsto> 37/2] = Inr (Finite x)
         \<and> CalculateExchangeRate ''USD'' ''EUR''
             [''USD'' \<mapsto> 1, ''EUR'' \<mapsto> 17/20, ''MXN'' \<mapsto> 37/2] = Inr (Finite y)
         \<and> x * y = 1)"
proof -
  have t: "rate_table [''USD'' \<mapsto> 1, ''EUR'' \<mapsto> 17/20, ''MXN'' \<mapsto> 37/2]"
    by (simp add: rate_table_def)
  show ?thesis
    using C10_round_trip [OF t, of "''EUR''" "17/20" "''MXN''" "37/2"]
      C10_round_trip [OF t, of "''USD''" 1 "''MXN''" "37/2"]
      C10_round_trip [OF t, of "''EUR''" "17/20" "''USD''" 1]
    by simp
qed

section \<open>Properties of the rate source\<close>

text \<open>
  When the function returns a table after a request was sent, USD is in it with rate 1,
  whether the response carried USD or not.
\<close>

lemma GetMultipleExchangeRates_USD:
  assumes "GetMultipleExchangeRates currencies http = Return (Inr usdRates)"
    and "currencies \<noteq> []"
  shows "usdRates ''USD'' = Some 1"
  using assms
  by (auto simp: GetMultipleExchangeRates_def
      split: http_result.splits http_body.splits if_splits option.splits)

text \<open>
  C5. For every fetch with status 200, a payload that decodes and the success flag set,
  the returned table maps USD to 1. The function does not get there when the payload has
  no \<open>rates\<close> object, as in \<open>{"success": true}\<close>: the decoded map is nil and the
  assignment \<open>apiResp.Rates["USD"] = 1.0\<close> panics instead of returning a table.
\<close>

theorem C5_nil_rates_panics:
  "GetMultipleExchangeRates [''EUR'', ''MXN'']
     (Response 200 (Parsed \<lparr>Success = True, Rates = None, Date = ''2024-01-01''\<rparr>))
   = Panic NilMapAssignment"
  by (simp add: GetMultipleExchangeRates_def)

section \<open>Properties of the request store\<close>

lemma conn_fault_healthy [simp]: "conn_faults w = [] \<Longrightarrow> conn_fault w = (False, w)"
  by (simp add: conn_fault_def)

lemma map_set_status_ID [simp]: "map ID (map (set_status rid st t) rows) = map ID rows"
  by (simp add: set_status_def comp_def)

lemma set_status_fields [simp]:
  "ID (set_status rid st t r) = ID r" "From (set_status rid st t r) = From r"
  "To (set_status rid st t r) = To r" "CreatedAt (set_status rid st t r) = CreatedAt r"
  by (simp_all add: set_status_def)

lemma set_status_absent: "rid \<notin> set (map ID rows) \<Longrightarrow> map (set_status rid st t) rows = rows"
  by (induction rows) (auto simp: set_status_def)

lemma idx_pending_set_status:
  assumes "idx_pending_quote_requests rows" and "st \<noteq> ''pending''"
  shows "idx_pending_quote_requests (map (set_status rid st t) rows)"
proof -
  let ?pend = "\<lambda>r. Status r = ''pending''" and ?pair = "\<lambda>r. (From r, To r)"
  have eq: "map ?pair (filter ?pend (map (set_status rid st t) rows))
      = map ?pair (filter (\<lambda>r. ID r \<noteq> rid) (filter ?pend rows))"
    using assms(2) by (induction rows) (auto simp: set_status_def)
  have "distinct (map ?pair (filter (\<lambda>r. ID r \<noteq> rid) (filter ?pend rows)))"
    using assms(1) unfolding idx_pending_quote_requests_def by (rule distinct_map_filter)
  then show ?thesis
    unfolding idx_pending_quote_requests_def eq .
qed

lemma UpdateQuoteRequestStatus_cases:
  assumes "UpdateQuoteRequestStatus rid st w = (e, w')"
  shows "quotes w' = quotes w \<and> clock w' = clock w \<and> ticks w' = Suc (ticks w)
       \<and> logs w' = logs w \<and> conn_faults w' = tl (conn_faults w)
       \<and> ((e \<noteq> None \<and> quote_requests w' = quote_requests w)
          \<or> (e = None \<and> quote_requests w' = map (set_status rid st (clock w (ticks w))) (quote_requests w)
              \<and> idx_pending_quote_requests (quote_requests w')))"
  using assms
  by (auto simp: UpdateQuoteRequestStatus_def time_Now_def conn_fault_def Let_def
      split: list.splits if_splits)

lemma UpdateQuoteRequestStatus_healthy:
  assumes "conn_faults w = []"
    and "idx_pending_quote_requests (map (set_status rid st (clock w (ticks w))) (quote_requests w))"
  shows "UpdateQuoteRequestStatus rid st w =
           (None, w\<lparr>ticks := Suc (ticks w),
                     quote_requests := map (set_status rid st (clock w (ticks w))) (quote_requests w)\<rparr>)"
  using assms
  by (simp add: UpdateQuoteRequestStatus_def time_Now_def conn_fault_def Let_def)


lemma pending_after_set_status:
  "map (\<lambda>r. (From r, To r))
     (filter (\<lambda>r. Status r = ''pending'') (map (set_status rid ''pending'' t) rows))
   = map (\<lambda>r. (From r, To r))
       (filter (\<lambda>r. Status r = ''pending'' \<or> ID r = rid) rows)"
  by (induction rows) (auto simp: set_status_def)

lemma idx_pending_refused:
  assumes "pending_conflict rid ''pending'' rows"
  shows "\<not> idx_pending_quote_requests (map (set_status rid ''pending'' t) rows)"
proof
  let ?Q = "\<lambda>r. Status r = ''pending'' \<or> ID r = rid"
  let ?key = "\<lambda>r. (From r, To r)"
  assume "idx_pending_quote_requests (map (set_status rid ''pending'' t) rows)"
  then have "distinct (map ?key (filter ?Q rows))"
    by (simp only: idx_pending_quote_requests_def pending_after_set_status)
  then have inj: "inj_on ?key (set (filter ?Q rows))"
    by (simp only: distinct_map)
  from assms obtain r r' where r: "r \<in> set rows" "r' \<in> set rows" "ID r = rid" "ID r' \<noteq> rid"
    "Status r' = ''pending''" "From r' = From r" "To r' = To r"
    unfolding pending_conflict_def by blast
  then have m: "r \<in> set (filter ?Q rows)" "r' \<in> set (filter ?Q rows)"
    and k: "?key r = ?key r'"
    by simp_all
  from inj_onD [OF inj k m] have "r = r'" .
  with r(3,4) show False by simp
qed

lemma idx_pending_accepted:
  assumes "idx_pending_quote_requests rows" and "quote_requests_pkey rows"
    and "\<not> pending_conflict rid ''pending'' rows"
  shows "idx_pending_quote_requests (map (set_status rid ''pending'' t) rows)"
proof -
  let ?P = "\<lambda>r. Status r = ''pending''"
  let ?Q = "\<lambda>r. Status r = ''pending'' \<or> ID r = rid"
  let ?key = "\<lambda>r. (From r, To r)"
  from assms(2) have drows: "distinct rows" and injID: "inj_on ID (set rows)"
    by (simp_all add: quote_requests_pkey_def distinct_map)
  from assms(1) have injP: "inj_on ?key (set (filter ?P rows))"
    by (simp only: idx_pending_quote_requests_def distinct_map)
  have "inj_on ?key (set (filter ?Q rows))"
  proof (rule inj_onI)
    fix a b
    assume a: "a \<in> set (filter ?Q rows)" and b: "b \<in> set (filter ?Q rows)"
      and k: "?key a = ?key b"
    from a b have ar: "a \<in> set rows" and br: "b \<in> set rows" by simp_all
    show "a = b"
    proof (cases "ID a = rid")
      case True
      show ?thesis
      proof (cases "ID b = rid")
        case b2: True
        with True injID ar br show ?thesis by (auto dest: inj_onD)
      next
        case False
        with b have "Status b = ''pending''" by simp
        with ar br True False k have "pending_conflict rid ''pending'' rows"
          unfolding pending_conflict_def
          by (intro conjI refl bexI [of _ a] bexI [of _ b]) simp_all
        with assms(3) show ?thesis by contradiction
      qed
    next
      case False
      with a have pa: "Status a = ''pending''" by simp
      show ?thesis
      proof (cases "ID b = rid")
        case True
        with ar br False pa k have "pending_conflict rid ''pending'' rows"
          unfolding pending_conflict_def
          by (intro conjI refl bexI [of _ b] bexI [of _ a]) simp_all
        with assms(3) show ?thesis by contradiction
      next
        case b2: False
        with b have "Status b = ''pending''" by simp
        with pa ar br have "a \<in> set (filter ?P rows)" "b \<in> set (filter ?P rows)"
          by simp_all
        with injP k show ?thesis by (auto dest: inj_onD)
      qed
    qed
  qed
  moreover from drows have "distinct (filter ?Q rows)" by simp
  ultimately have "distinct (map ?key (filter ?Q rows))"
    by (simp only: distinct_map simp_thms)
  then show ?thesis
    by (simp only: idx_pending_quote_requests_def pending_after_set_status)
qed

lemma UpdateQuoteRequestStatus_refused:
  assumes "conn_faults w = []"
    and "\<not> idx_pending_quote_requests
           (map (set_status rid st (clock w (ticks w))) (quote_requests w))"
  shows "UpdateQuoteRequestStatus rid st w =
           (Some (StoreError ''failed to update quote request status''),
            w\<lparr>ticks := Suc (ticks w)\<rparr>)"
  using assms
  by (simp add: UpdateQuoteRequestStatus_def time_Now_def conn_fault_def Let_def)


text \<open>
  C6, as stated: on an id that is not in the store the status write fails with NotFound,
  and on an id that is in the store it overwrites the status unconditionally and
  refreshes \<open>updated_at\<close>. The function runs one \<open>UPDATE ... WHERE id = $3\<close> and
  looks only at the error of \<open>Exec\<close>: an update that matches no row is no error, so the
  call on the unknown id \<open>42\<close> returns nil. And the write of \<open>pending\<close> to request
  \<open>1000\<close> is refused by the partial unique index, since request \<open>1001\<close> is pending for
  the same pair.
\<close>

theorem C6_transitionStatus_counterexample:
  "''42'' \<notin> set (map ID (quote_requests sample_world))
   \<and> fst (UpdateQuoteRequestStatus ''42'' ''failed'' sample_world) = None
   \<and> ''1000'' \<in> set (map ID (quote_requests sample_world))
   \<and> fst (UpdateQuoteRequestStatus ''1000'' ''pending'' sample_world)
       = Some (StoreError ''failed to update quote request status'')
   \<and> quote_requests (snd (UpdateQuoteRequestStatus ''1000'' ''pending'' sample_world))
       = quote_requests sample_world"
  by (simp add: sample_world_def sample_requests_def UpdateQuoteRequestStatus_def
      time_Now_def conn_fault_def set_status_def idx_pending_quote_requests_def)

text \<open>
  C6, amended: while the database answers (no connection fault) and holds at most one
  pending request per pair, a status write on an id that is not in the store reports no
  error and changes no row. On an id that is in the store it reports no error and gives
  every row with that id the new status, whatever the old one was, and the clock's
  reading as \<open>updated_at\<close>, leaving all other rows and the quotes as they were; the
  one exception is a write of \<open>pending\<close> while another request of the same pair is
  pending, which is answered with an error and changes no row. (For a write of
  \<open>pending\<close> that is accepted, the ids of the table are taken to be unique, as the
  primary key has them.)
\<close>

theorem C6_transitionStatus:
  assumes "conn_faults w = []" and "idx_pending_quote_requests (quote_requests w)"
  shows "(rid \<notin> set (map ID (quote_requests w)) \<longrightarrow>
            UpdateQuoteRequestStatus rid status w = (None, w\<lparr>ticks := Suc (ticks w)\<rparr>))
       \<and> (\<not> pending_conflict rid status (quote_requests w)
            \<and> (status = ''pending'' \<longrightarrow> quote_requests_pkey (quote_requests w)) \<longrightarrow>
            (\<exists>w'. UpdateQuoteRequestStatus rid status w = (None, w')
               \<and> quotes w' = quotes w
               \<and> length (quote_requests w') = length (quote_requests w)
               \<and> (\<forall>i<length (quote_requests w).
                     quote_requests w' ! i =
                       (if ID (quote_requests w ! i) = rid
                        then (quote_requests w ! i)\<lparr>Status := status,
                               UpdatedAt := clock w (ticks w)\<rparr>
                        else quote_requests w ! i))))
       \<and> (pending_conflict rid status (quote_requests w) \<longrightarrow>
            UpdateQuoteRequestStatus rid status w =
              (Some (StoreError ''failed to update quote request status''),
               w\<lparr>ticks := Suc (ticks w)\<rparr>))"
proof (intro conjI impI)
  assume "rid \<notin> set (map ID (quote_requests w))"
  then have "map (set_status rid status (clock w (ticks w))) (quote_requests w) = quote_requests w"
    by (rule set_status_absent)
  then show "UpdateQuoteRequestStatus rid status w = (None, w\<lparr>ticks := Suc (ticks w)\<rparr>)"
    using assms by (simp add: UpdateQuoteRequestStatus_healthy)
next
  assume a: "\<not> pending_conflict rid status (quote_requests w)
            \<and> (status = ''pending'' \<longrightarrow> quote_requests_pkey (quote_requests w))"
  have "idx_pending_quote_requests
      (map (set_status rid status (clock w (ticks w))) (quote_requests w))"
  proof (cases "status = ''pending''")
    case True
    with a assms(2) show ?thesis by (simp add: idx_pending_accepted)
  next
    case False
    with assms(2) show ?thesis by (simp add: idx_pending_set_status)
  qed
  then have "UpdateQuoteRequestStatus rid status w =
      (None, w\<lparr>ticks := Suc (ticks w),
                quote_requests := map (set_status rid status (clock w (ticks w))) (quote_requests w)\<rparr>)"
    using assms(1) by (rule UpdateQuoteRequestStatus_healthy [rotated])
  then show "\<exists>w'. UpdateQuoteRequestStatus rid status w = (None, w')
               \<and> quotes w' = quotes w
               \<and> length (quote_requests w') = length (quote_requests w)
               \<and> (\<forall>i<length (quote_requests w).
                     quote_requests w' ! i =
                       (if ID (quote_requests w ! i) = rid
                        then (quote_requests w ! i)\<lparr>Status := status,
                               UpdatedAt := clock w (ticks w)\<rparr>
                        else quote_requests w ! i))"
    by (simp add: set_status_def)
next
  assume c: "pending_conflict rid status (quote_requests w)"
  then have st: "status = ''pending''" by (simp add: pending_conflict_def)
  with c have "\<not> idx_pending_quote_requests
      (map (set_status rid status (clock w (ticks w))) (quote_requests w))"
    by (simp add: idx_pending_refused)
  with assms(1) show "UpdateQuoteRequestStatus rid status w =
      (Some (StoreError ''failed to update quote request status''),
       w\<lparr>ticks := Suc (ticks w)\<rparr>)"
    by (rule UpdateQuoteRequestStatus_refused)
qed

theorem C6_transitionStatus_witness:
  "UpdateQuoteRequestStatus ''42'' ''failed'' sample_world = (None, sample_world\<lparr>ticks := 1\<rparr>)
   \<and> (\<exists>w'. UpdateQuoteRequestStatus ''1000'' ''failed'' sample_world = (None, w')
         \<and> quote_requests w' ! 2 =
             \<lparr>ID = ''1000'', From = ''EUR'', To = ''MXN'', Status = ''failed'',
              CreatedAt = 1000, UpdatedAt = 2000\<rparr>
         \<and> quote_requests w' ! 0 = quote_requests sample_world ! 0)
   \<and> (\<exists>w'. UpdateQuoteRequestStatus ''1002'' ''pending'' sample_world = (None, w')
         \<and> quote_requests w' ! 1 =
             \<lparr>ID = ''1002'', From = ''USD'', To = ''EUR'', Status = ''pending'',
              CreatedAt = 1002, UpdatedAt = 2000\<rparr>)
   \<and> UpdateQuoteRequestStatus ''1000'' ''pending'' sample_world
       = (Some (StoreError ''failed to update quote request status''),
          sample_world\<lparr>ticks := 1\<rparr>)"
proof -
  have h: "conn_faults sample_world = []"
    "idx_pending_quote_requests (quote_requests sample_world)"
    by (simp_all add: sample_world_def sample_requests_def idx_pending_quote_requests_def)
  have a: "''42'' \<notin> set (map ID (quote_requests sample_world))"
    by (simp add: sample_world_def sample_requests_def)
  have b: "\<not> pending_conflict ''1000'' ''failed'' (quote_requests sample_world)
      \<and> (''failed'' = ''pending'' \<longrightarrow> quote_requests_pkey (quote_requests sample_world))"
    by (simp add: pending_conflict_def)
  have c: "\<not> pending_conflict ''1002'' ''pending'' (quote_requests sample_world)
      \<and> (''pending'' = ''pending'' \<longrightarrow> quote_requests_pkey (quote_requests sample_world))"
    by (simp add: pending_conflict_def quote_requests_pkey_def sample_world_def
        sample_requests_def)
  have d: "pending_conflict ''1000'' ''pending'' (quote_requests sample_world)"
    by (simp add: pending_conflict_def sample_world_def sample_requests_def)
  have t: "Suc (ticks sample_world) = 1" "clock sample_world (ticks sample_world) = 2000"
    by (simp_all add: sample_world_def)
  have r: "quote_requests sample_world ! 2 =
      \<lparr>ID = ''1000'', From = ''EUR'', To = ''MXN'', Status = ''completed'',
       CreatedAt = 1000, UpdatedAt = 1500\<rparr>"
    "quote_requests sample_world ! Suc 0 =
      \<lparr>ID = ''1002'', From = ''USD'', To = ''EUR'', Status = ''pending'',
       CreatedAt = 1002, UpdatedAt = 1002\<rparr>"
    "ID (quote_requests sample_world ! 0) = ''1001''"
    and len: "0 < length (quote_requests sample_world)"
      "Suc 0 < length (quote_requests sample_world)"
      "2 < length (quote_requests sample_world)"
    by (simp_all add: sample_world_def sample_requests_def)
  from C6_transitionStatus [OF h, of "''42''" "''failed''"] a
  have 1: "UpdateQuoteRequestStatus ''42'' ''failed'' sample_world
      = (None, sample_world\<lparr>ticks := 1\<rparr>)"
    by (simp add: t)
  from C6_transitionStatus [OF h, of "''1000''" "''failed''"] b
  obtain w1 where w1: "UpdateQuoteRequestStatus ''1000'' ''failed'' sample_world = (None, w1)"
    and rows1: "\<forall>i<length (quote_requests sample_world).
                     quote_requests w1 ! i =
                       (if ID (quote_requests sample_world ! i) = ''1000''
                        then (quote_requests sample_world ! i)\<lparr>Status := ''failed'',
                               UpdatedAt := clock sample_world (ticks sample_world)\<rparr>
                        else quote_requests sample_world ! i)"
    by blast
  from rows1 [rule_format, OF len(3)] rows1 [rule_format, OF len(1)]
  have 2: "quote_requests w1 ! 2 =
             \<lparr>ID = ''1000'', From = ''EUR'', To = ''MXN'', Status = ''failed'',
              CreatedAt = 1000, UpdatedAt = 2000\<rparr>
         \<and> quote_requests w1 ! 0 = quote_requests sample_world ! 0"
    by (simp add: r t)
  from C6_transitionStatus [OF h, of "''1002''" "''pending''"] c
  obtain w2 where w2: "UpdateQuoteRequestStatus ''1002'' ''pending'' sample_world = (None, w2)"
    and rows2: "\<forall>i<length (quote_requests sample_world).
                     quote_requests w2 ! i =
                       (if ID (quote_requests sample_world ! i) = ''1002''
                        then (quote_requests sample_world ! i)\<lparr>Status := ''pending'',
                               UpdatedAt := clock sample_world (ticks sample_world)\<rparr>
                        else quote_requests sample_world ! i)"
    by blast
  from rows2 [rule_format, OF len(2)]
  have 3: "quote_requests w2 ! 1 =
             \<lparr>ID = ''1002'', From = ''USD'', To = ''EUR'', Status = ''pending'',
              CreatedAt = 1002, UpdatedAt = 2000\<rparr>"
    by (simp add: r t)
  from C6_transitionStatus [OF h, of "''1000''" "''pending''"] d
  have 4: "UpdateQuoteRequestStatus ''1000'' ''pending'' sample_world
       = (Some (StoreError ''failed to update quote request status''),
          sample_world\<lparr>ticks := 1\<rparr>)"
    by (simp add: t)
  from 1 w1 2 w2 3 4 show ?thesis by blast
qed

subsection \<open>The partial unique index is kept\<close>

lemma idx_pending_touch [simp]:
  "idx_pending_quote_requests (map (touch rid t) rows) = idx_pending_quote_requests rows"
proof -
  have "map (\<lambda>r. (From r, To r)) (filter (\<lambda>r. Status r = ''pending'') (map (touch rid t) rows))
      = map (\<lambda>r. (From r, To r)) (filter (\<lambda>r. Status r = ''pending'') rows)"
    by (induction rows) (auto simp: touch_def)
  then show ?thesis by (simp only: idx_pending_quote_requests_def)
qed

lemma idx_CreateQuoteRequest:
  "idx_pending_quote_requests (quote_requests w) \<Longrightarrow>
   idx_pending_quote_requests (quote_requests (snd (CreateQuoteRequest from to w)))"
  by (auto simp: CreateQuoteRequest_def time_Now_def generateID_def conn_fault_def Let_def
      split: list.splits)

lemma idx_UpdateQuoteRequestStatus:
  "idx_pending_quote_requests (quote_requests w) \<Longrightarrow>
   idx_pending_quote_requests (quote_requests (snd (UpdateQuoteRequestStatus rid st w)))"
  by (auto simp: UpdateQuoteRequestStatus_def time_Now_def conn_fault_def Let_def
      split: list.splits)

lemma rows_GetPendingQuoteRequestByPair [simp]:
  "quote_requests (snd (GetPendingQuoteRequestByPair from to w)) = quote_requests w"
  by (auto simp: GetPendingQuoteRequestByPair_def conn_fault_def
      split: list.splits option.splits)

lemma idx_CreateOrGetPendingQuoteRequest:
  assumes "idx_pending_quote_requests (quote_requests w)"
  shows "idx_pending_quote_requests
           (quote_requests (snd (CreateOrGetPendingQuoteRequest from to w)))"
proof (cases "GetPendingQuoteRequestByPair from to w")
  case (Pair res w1)
  then have rows: "quote_requests w1 = quote_requests w"
    using rows_GetPendingQuoteRequestByPair [of "from" to w] by simp
  show ?thesis
  proof (cases res)
    case (Inl err)
    with Pair rows assms show ?thesis
      by (simp add: CreateOrGetPendingQuoteRequest_def idx_CreateQuoteRequest)
  next
    case (Inr existing)
    with Pair rows assms show ?thesis
      by (auto simp: CreateOrGetPendingQuoteRequest_def time_Now_def conn_fault_def
          log_line_def split: list.splits)
  qed
qed

lemma rows_UpsertQuote [simp]:
  "quote_requests (snd (UpsertQuote from to rate w)) = quote_requests w"
  by (auto simp: UpsertQuote_def time_Now_def generateID_def conn_fault_def
      split: list.splits)

lemma rows_reads [simp]:
  "quote_requests (snd (GetQuoteRequest rid w)) = quote_requests w"
  "quote_requests (snd (GetQuote from to w)) = quote_requests w"
  "quote_requests (snd (GetPendingQuoteRequests w)) = quote_requests w"
  by (auto simp: GetQuoteRequest_def GetQuote_def GetPendingQuoteRequests_def conn_fault_def
      split: list.splits option.splits)

lemma rows_log_line [simp]: "quote_requests (log_line lvl msg w) = quote_requests w"
  by (simp add: log_line_def)

lemma idx_update_each:
  "idx_pending_quote_requests (quote_requests w) \<Longrightarrow>
   idx_pending_quote_requests (quote_requests (update_each st msg reqs w))"
proof (induction reqs arbitrary: w)
  case Nil
  then show ?case by simp
next
  case (Cons req reqs)
  obtain e w' where u: "UpdateQuoteRequestStatus (ID req) st w = (e, w')"
    by (cases "UpdateQuoteRequestStatus (ID req) st w")
  with idx_UpdateQuoteRequestStatus [OF Cons.prems, of "ID req" st]
  have "idx_pending_quote_requests (quote_requests w')" by simp
  with u Cons.IH show ?case
    by (cases e) simp_all
qed

lemma processCurrencyPairWithRates_Nil:
  "processCurrencyPairWithRates pair [] usdRates w = (Some IndexOutOfRange, w)"
  by (simp add: processCurrencyPairWithRates_def)

lemma processCurrencyPairWithRates_Cons:
  assumes "reqs \<noteq> []"
  shows "processCurrencyPairWithRates pair reqs usdRates w =
     (let w1 = update_each ''processing''
                 ''Failed to update request status to processing'' reqs w
      in case CalculateExchangeRate (From (hd reqs)) (To (hd reqs)) usdRates of
           Inl err \<Rightarrow>
             (None, update_each ''failed'' ''Failed to update request status to failed'' reqs
                      (log_line ErrorLevel ''Failed to calculate exchange rate'' w1))
         | Inr rate \<Rightarrow>
             (case UpsertQuote (From (hd reqs)) (To (hd reqs)) rate w1 of
                (Some err, w2) \<Rightarrow>
                  (None, update_each ''failed''
                           ''Failed to update request status to failed'' reqs
                           (log_line ErrorLevel ''Failed to save quote to database'' w2))
              | (None, w2) \<Rightarrow>
                  (None, update_each ''completed''
                           ''Failed to update request status to completed'' reqs w2)))"
  using assms
  by (cases reqs)
    (auto simp add: processCurrencyPairWithRates_def Let_def simp del: update_each.simps
      split: sum.splits prod.splits option.splits)

lemma idx_processCurrencyPairWithRates:
  assumes "idx_pending_quote_requests (quote_requests w)"
  shows "idx_pending_quote_requests
           (quote_requests (snd (processCurrencyPairWithRates pair reqs usdRates w)))"
proof (cases "reqs = []")
  case True
  with assms show ?thesis by (simp add: processCurrencyPairWithRates_Nil)
next
  case False
  let ?w1 = "update_each ''processing'' ''Failed to update request status to processing'' reqs w"
  have 1: "idx_pending_quote_requests (quote_requests ?w1)"
    using assms by (rule idx_update_each)
  show ?thesis
  proof (cases "CalculateExchangeRate (From (hd reqs)) (To (hd reqs)) usdRates")
    case (Inl err)
    with 1 show ?thesis
      by (simp add: processCurrencyPairWithRates_Cons [OF False] Let_def idx_update_each)
  next
    case (Inr rate)
    obtain e w2 where u: "UpsertQuote (From (hd reqs)) (To (hd reqs)) rate ?w1 = (e, w2)"
      by (cases "UpsertQuote (From (hd reqs)) (To (hd reqs)) rate ?w1")
    then have "quote_requests w2 = quote_requests ?w1"
      using rows_UpsertQuote [of "From (hd reqs)" "To (hd reqs)" rate ?w1] by simp
    with 1 have 2: "idx_pending_quote_requests (quote_requests w2)" by simp
    from Inr u 2 show ?thesis
      by (cases e)
        (simp_all add: processCurrencyPairWithRates_Cons [OF False] Let_def idx_update_each)
  qed
qed

lemma idx_process_groups:
  "idx_pending_quote_requests (quote_requests w) \<Longrightarrow>
   idx_pending_quote_requests (quote_requests (snd (process_groups groups usdRates w)))"
proof (induction groups arbitrary: w)
  case Nil
  then show ?case by simp
next
  case (Cons g groups)
  obtain pair reqs where g: "g = (pair, reqs)" by (cases g)
  obtain p w' where s: "processCurrencyPairWithRates pair reqs usdRates w = (p, w')"
    by (cases "processCurrencyPairWithRates pair reqs usdRates w")
  with idx_processCurrencyPairWithRates [OF Cons.prems, of pair reqs usdRates]
  have "idx_pending_quote_requests (quote_requests w')" by simp
  with g s Cons.IH show ?case
    by (cases p) simp_all
qed

lemma idx_processPendingRequests:
  assumes "idx_pending_quote_requests (quote_requests w)"
  shows "idx_pending_quote_requests
           (quote_requests (snd (processPendingRequests rank http w)))"
proof -
  obtain res w1 where d: "GetPendingQuoteRequests w = (res, w1)"
    by (cases "GetPendingQuoteRequests w")
  then have "quote_requests w1 = quote_requests w"
    using rows_reads(3) [of w] by simp
  with assms have 1: "idx_pending_quote_requests (quote_requests w1)" by simp
  show ?thesis
    using d 1
    by (auto simp: processPendingRequests_def markAllRequestsAsFailed_def
        idx_update_each idx_process_groups
        split: sum.splits go_result.splits)
qed

lemma idx_after_call:
  "idx_pending_quote_requests (quote_requests w) \<Longrightarrow>
   idx_pending_quote_requests (quote_requests (after_call c w))"
  by (cases c)
    (simp_all add: idx_CreateQuoteRequest idx_CreateOrGetPendingQuoteRequest
      idx_UpdateQuoteRequestStatus idx_processPendingRequests)

lemma idx_fold_after_call:
  "idx_pending_quote_requests (quote_requests w) \<Longrightarrow>
   idx_pending_quote_requests (quote_requests (fold after_call calls w))"
  by (induction calls arbitrary: w) (simp_all add: idx_after_call)


lemma idx_pending_append_new:
  assumes "idx_pending_quote_requests rows"
    and "find (\<lambda>r. From r = from \<and> To r = to \<and> Status r = ''pending'') rows = None"
    and "From req = from" and "To req = to"
  shows "idx_pending_quote_requests (rows @ [req])"
proof -
  from assms(2) have "(from, to) \<notin> set (map (\<lambda>r. (From r, To r))
      (filter (\<lambda>r. Status r = ''pending'') rows))"
    by (auto simp: find_None_iff)
  with assms(1,3,4) show ?thesis
    by (auto simp: idx_pending_quote_requests_def)
qed

lemma CreateOrGetPendingQuoteRequest_existing:
  assumes "conn_faults w = []"
    and "find (\<lambda>r. From r = from \<and> To r = to \<and> Status r = ''pending'') (quote_requests w)
           = Some r"
  shows "CreateOrGetPendingQuoteRequest from to w =
           (Inr r, w\<lparr>ticks := Suc (ticks w),
                      quote_requests := map (touch (ID r) (clock w (ticks w))) (quote_requests w)\<rparr>)"
  using assms
  by (simp add: CreateOrGetPendingQuoteRequest_def GetPendingQuoteRequestByPair_def
      time_Now_def conn_fault_def)

lemma CreateOrGetPendingQuoteRequest_new:
  assumes "conn_faults w = []"
    and "find (\<lambda>r. From r = from \<and> To r = to \<and> Status r = ''pending'') (quote_requests w)
           = None"
    and "idx_pending_quote_requests (quote_requests w)"
    and "quote_requests_pkey (quote_requests w)"
    and "dec (clock w (Suc (ticks w))) \<notin> set (map ID (quote_requests w))"
  shows "CreateOrGetPendingQuoteRequest from to w =
           (Inr \<lparr>ID = dec (clock w (Suc (ticks w))), From = from, To = to,
                 Status = ''pending'', CreatedAt = clock w (ticks w),
                 UpdatedAt = clock w (ticks w)\<rparr>,
            w\<lparr>ticks := Suc (Suc (ticks w)),
              quote_requests := quote_requests w @
                [\<lparr>ID = dec (clock w (Suc (ticks w))), From = from, To = to,
                  Status = ''pending'', CreatedAt = clock w (ticks w),
                  UpdatedAt = clock w (ticks w)\<rparr>]\<rparr>)"
proof -
  let ?new = "\<lparr>ID = dec (clock w (Suc (ticks w))), From = from, To = to,
                 Status = ''pending'', CreatedAt = clock w (ticks w),
                 UpdatedAt = clock w (ticks w)\<rparr>"
  have "idx_pending_quote_requests (quote_requests w @ [?new])"
    using assms(3,2) by (rule idx_pending_append_new) simp_all
  moreover have "quote_requests_pkey (quote_requests w @ [?new])"
    using assms(4,5) by (simp add: quote_requests_pkey_def)
  ultimately show ?thesis
    using assms(1,2)
    by (simp add: CreateOrGetPendingQuoteRequest_def GetPendingQuoteRequestByPair_def
        CreateQuoteRequest_def generateID_def time_Now_def conn_fault_def Let_def)
qed

text \<open>
  C2. The store never holds two pending requests for one pair: a store that satisfies the
  partial unique index (the empty one does) satisfies it after every sequence of store
  operations and engine cycles, whatever the connection does. While the database
  answers, \<open>CreateOrGetPendingQuoteRequest\<close> returns the pending request of the pair
  when there is one and adds no row (it only refreshes that row's \<open>updated_at\<close>);
  when there is none it inserts a new pending request and returns it, given that the id
  rendered from the clock is not yet a key of the table.
\<close>

theorem C2_pending_unique:
  assumes "idx_pending_quote_requests (quote_requests w)"
  shows "idx_pending_quote_requests (quote_requests (fold after_call calls w))
    \<and> (\<forall>r. conn_faults w = []
          \<and> find (\<lambda>r. From r = from \<and> To r = to \<and> Status r = ''pending'') (quote_requests w)
              = Some r \<longrightarrow>
          fst (CreateOrGetPendingQuoteRequest from to w) = Inr r
          \<and> quote_requests (snd (CreateOrGetPendingQuoteRequest from to w))
              = map (touch (ID r) (clock w (ticks w))) (quote_requests w))
    \<and> (conn_faults w = []
          \<and> find (\<lambda>r. From r = from \<and> To r = to \<and> Status r = ''pending'') (quote_requests w)
              = None
          \<and> quote_requests_pkey (quote_requests w)
          \<and> dec (clock w (Suc (ticks w))) \<notin> set (map ID (quote_requests w)) \<longrightarrow>
          fst (CreateOrGetPendingQuoteRequest from to w)
              = Inr \<lparr>ID = dec (clock w (Suc (ticks w))), From = from, To = to,
                     Status = ''pending'', CreatedAt = clock w (ticks w),
                     UpdatedAt = clock w (ticks w)\<rparr>
          \<and> quote_requests (snd (CreateOrGetPendingQuoteRequest from to w))
              = quote_requests w @
                  [\<lparr>ID = dec (clock w (Suc (ticks w))), From = from, To = to,
                    Status = ''pending'', CreatedAt = clock w (ticks w),
                    UpdatedAt = clock w (ticks w)\<rparr>])"
  using assms
  by (simp add: idx_fold_after_call CreateOrGetPendingQuoteRequest_existing
      CreateOrGetPendingQuoteRequest_new)

lemma dec_2001: "dec 2001 = ''2001''"
  by code_simp

theorem C2_pending_unique_witness:
  "idx_pending_quote_requests (quote_requests
      (fold after_call
         [Call_CreateOrGetPendingQuoteRequest ''EUR'' ''MXN'',
          Call_CreateQuoteRequest ''EUR'' ''MXN'',
          Call_UpdateQuoteRequestStatus ''1000'' ''pending'',
          Call_processPendingRequests (\<lambda>k. 0) TransportError] sample_world))
   \<and> fst (CreateOrGetPendingQuoteRequest ''EUR'' ''MXN'' sample_world)
       = Inr \<lparr>ID = ''1001'', From = ''EUR'', To = ''MXN'', Status = ''pending'',
              CreatedAt = 1001, UpdatedAt = 1001\<rparr>
   \<and> length (quote_requests (snd (CreateOrGetPendingQuoteRequest ''EUR'' ''MXN'' sample_world)))
       = 3
   \<and> fst (CreateOrGetPendingQuoteRequest ''MXN'' ''USD'' sample_world)
       = Inr \<lparr>ID = ''2001'', From = ''MXN'', To = ''USD'', Status = ''pending'',
              CreatedAt = 2000, UpdatedAt = 2000\<rparr>
   \<and> length (quote_requests (snd (CreateOrGetPendingQuoteRequest ''MXN'' ''USD'' sample_world)))
       = 4"
proof -
  have idx: "idx_pending_quote_requests (quote_requests sample_world)"
    by (simp add: sample_world_def sample_requests_def idx_pending_quote_requests_def)
  have a: "conn_faults sample_world = []
          \<and> find (\<lambda>r. From r = ''EUR'' \<and> To r = ''MXN'' \<and> Status r = ''pending'')
               (quote_requests sample_world)
              = Some \<lparr>ID = ''1001'', From = ''EUR'', To = ''MXN'', Status = ''pending'',
              CreatedAt = 1001, UpdatedAt = 1001\<rparr>"
    by (simp add: sample_world_def sample_requests_def)
  have b: "conn_faults sample_world = []
          \<and> find (\<lambda>r. From r = ''MXN'' \<and> To r = ''USD'' \<and> Status r = ''pending'')
               (quote_requests sample_world) = None
          \<and> quote_requests_pkey (quote_requests sample_world)
          \<and> dec (clock sample_world (Suc (ticks sample_world)))
               \<notin> set (map ID (quote_requests sample_world))"
    by (simp add: sample_world_def sample_requests_def quote_requests_pkey_def dec_2001)
  have c: "clock sample_world (Suc (ticks sample_world)) = 2001"
    "clock sample_world (ticks sample_world) = 2000"
    "length (quote_requests sample_world) = 3"
    by (simp_all add: sample_world_def sample_requests_def)
  show ?thesis
    using C2_pending_unique [OF idx, of "[Call_CreateOrGetPendingQuoteRequest ''EUR'' ''MXN'',
          Call_CreateQuoteRequest ''EUR'' ''MXN'',
          Call_UpdateQuoteRequestStatus ''1000'' ''pending'',
          Call_processPendingRequests (\<lambda>k. 0) TransportError]" "''EUR''" "''MXN''"]
      C2_pending_unique [OF idx, of "[]" "''MXN''" "''USD''"] a b
    by (simp add: c dec_2001)
qed

section \<open>Properties of the lifecycle engine\<close>

subsection \<open>Rows outside the discovered set are not touched\<close>

lemma untouched_refl: "untouched_outside S rows rows"
  by (simp add: untouched_outside_def list_all2_same)

lemma untouched_trans:
  assumes "untouched_outside S a b" and "untouched_outside T b c"
  shows "untouched_outside (S \<union> T) a c"
proof -
  have "list_all2 (\<lambda>r r''. ID r'' = ID r \<and> (ID r \<notin> S \<union> T \<longrightarrow> r'' = r)) a c"
    using assms [unfolded untouched_outside_def]
    by (rule list_all2_trans [rotated]) auto
  then show ?thesis by (simp only: untouched_outside_def)
qed

lemma untouched_mono:
  "untouched_outside S a b \<Longrightarrow> S \<subseteq> T \<Longrightarrow> untouched_outside T a b"
  unfolding untouched_outside_def
  by (erule list_all2_mono) auto

lemma untouched_set_status:
  "untouched_outside {rid} rows (map (set_status rid st t) rows)"
  by (simp add: untouched_outside_def list_all2_map2 list_all2_same set_status_def)

lemma untouched_UpdateQuoteRequestStatus:
  "untouched_outside {rid} (quote_requests w)
     (quote_requests (snd (UpdateQuoteRequestStatus rid st w)))"
proof -
  obtain e w' where u: "UpdateQuoteRequestStatus rid st w = (e, w')"
    by (cases "UpdateQuoteRequestStatus rid st w")
  from UpdateQuoteRequestStatus_cases [OF u] show ?thesis
    by (auto simp: u untouched_refl untouched_set_status)
qed

lemma untouched_update_each:
  "untouched_outside (ID ` set reqs) (quote_requests w)
     (quote_requests (update_each st msg reqs w))"
proof (induction reqs arbitrary: w)
  case Nil
  show ?case by (simp add: untouched_refl)
next
  case (Cons req reqs)
  obtain e w' where u: "UpdateQuoteRequestStatus (ID req) st w = (e, w')"
    by (cases "UpdateQuoteRequestStatus (ID req) st w")
  have 1: "untouched_outside {ID req} (quote_requests w) (quote_requests w')"
    using untouched_UpdateQuoteRequestStatus [of "ID req" w st] by (simp add: u)
  have "untouched_outside ({ID req} \<union> ID ` set reqs) (quote_requests w)
     (quote_requests (update_each st msg (req # reqs) w))"
  proof (cases e)
    case None
    with u untouched_trans [OF 1 Cons.IH [of w']] show ?thesis by simp
  next
    case (Some err)
    have "untouched_outside (ID ` set reqs) (quote_requests w')
        (quote_requests (update_each st msg reqs (log_line ErrorLevel msg w')))"
      using Cons.IH [of "log_line ErrorLevel msg w'"] by simp
    from untouched_trans [OF 1 this] u Some show ?thesis by simp
  qed
  then show ?case by simp
qed

lemma untouched_processCurrencyPairWithRates:
  "untouched_outside (ID ` set reqs) (quote_requests w)
     (quote_requests (snd (processCurrencyPairWithRates pair reqs usdRates w)))"
proof (cases "reqs = []")
  case True
  then show ?thesis by (simp add: processCurrencyPairWithRates_Nil untouched_refl)
next
  case False
  let ?S = "ID ` set reqs"
  let ?w1 = "update_each ''processing'' ''Failed to update request status to processing'' reqs w"
  have 1: "untouched_outside ?S (quote_requests w) (quote_requests ?w1)"
    by (rule untouched_update_each)
  have step: "untouched_outside ?S (quote_requests w) (quote_requests (update_each st msg reqs v))"
    if "quote_requests v = quote_requests ?w1" for st msg v
    using untouched_trans [OF 1, of ?S "quote_requests (update_each st msg reqs v)"]
      untouched_update_each [of reqs v st msg] that by simp
  show ?thesis
  proof (cases "CalculateExchangeRate (From (hd reqs)) (To (hd reqs)) usdRates")
    case (Inl err)
    then show ?thesis
      by (simp add: processCurrencyPairWithRates_Cons [OF False] Let_def step)
  next
    case (Inr rate)
    obtain e w2 where u: "UpsertQuote (From (hd reqs)) (To (hd reqs)) rate ?w1 = (e, w2)"
      by (cases "UpsertQuote (From (hd reqs)) (To (hd reqs)) rate ?w1")
    then have "quote_requests w2 = quote_requests ?w1"
      using rows_UpsertQuote [of "From (hd reqs)" "To (hd reqs)" rate ?w1] by simp
    with Inr u show ?thesis
      by (cases e) (simp_all add: processCurrencyPairWithRates_Cons [OF False] Let_def step)
  qed
qed

lemma untouched_process_groups:
  "untouched_outside (ID ` set (concat (map snd groups))) (quote_requests w)
     (quote_requests (snd (process_groups groups usdRates w)))"
proof (induction groups arbitrary: w)
  case Nil
  show ?case by (simp add: untouched_refl)
next
  case (Cons g groups)
  obtain pair reqs where g: "g = (pair, reqs)" by (cases g)
  obtain p w' where s: "processCurrencyPairWithRates pair reqs usdRates w = (p, w')"
    by (cases "processCurrencyPairWithRates pair reqs usdRates w")
  have 1: "untouched_outside (ID ` set reqs) (quote_requests w) (quote_requests w')"
    using untouched_processCurrencyPairWithRates [of reqs w pair usdRates] by (simp add: s)
  have "untouched_outside (ID ` set reqs \<union> ID ` set (concat (map snd groups)))
     (quote_requests w) (quote_requests (snd (process_groups (g # groups) usdRates w)))"
  proof (cases p)
    case None
    with g s untouched_trans [OF 1 Cons.IH [of w']] show ?thesis by simp
  next
    case (Some pn)
    with g s untouched_mono [OF 1] show ?thesis by simp
  qed
  then show ?case by (simp add: g image_Un)
qed

subsection \<open>Grouping keeps the discovered requests\<close>

lemma mset_map_append:
  "mset (concat (map snd (map_append k req m))) = add_mset req (mset (concat (map snd m)))"
  by (induction m) auto

lemma mset_currencyPairMap_aux:
  "mset (concat (map snd (foldl (\<lambda>m req. map_append (pairKey req) req m) m0 reqs)))
     = mset (concat (map snd m0)) + mset reqs"
  by (induction reqs arbitrary: m0) (simp_all add: mset_map_append)

lemma mset_currencyPairMap:
  "mset (concat (map snd (currencyPairMap reqs))) = mset reqs"
  by (simp add: currencyPairMap_def mset_currencyPairMap_aux)

lemma mset_concat_perm:
  assumes "mset xss = mset yss"
  shows "mset (concat xss) = mset (concat yss)"
proof -
  have "mset (concat xss) = sum_mset (image_mset mset (mset xss))" for xss :: "'a list list"
    by (induction xss) simp_all
  with assms show ?thesis by simp
qed

lemma mset_range_map:
  "mset (concat (map snd (range_map rank m))) = mset (concat (map snd m))"
  by (rule mset_concat_perm) (simp add: range_map_def)

lemma set_groups:
  "set (concat (map snd (range_map rank (currencyPairMap reqs)))) = set reqs"
  using mset_range_map [of rank "currencyPairMap reqs"] mset_currencyPairMap [of reqs]
  by (metis set_mset_mset)

lemma untouched_processPendingRequests:
  "untouched_outside (ID ` {r \<in> set (quote_requests w). Status r = ''pending''})
     (quote_requests w) (quote_requests (snd (processPendingRequests rank http w)))"
proof -
  let ?S = "ID ` {r \<in> set (quote_requests w). Status r = ''pending''}"
  obtain res w1 where d: "GetPendingQuoteRequests w = (res, w1)"
    by (cases "GetPendingQuoteRequests w")
  then have rows: "quote_requests w1 = quote_requests w"
    using rows_reads(3) [of w] by simp
  show ?thesis
  proof (cases res)
    case (Inl err)
    with d rows show ?thesis
      by (simp add: processPendingRequests_def untouched_refl)
  next
    case (Inr reqs)
    with d have S: "ID ` set reqs = ?S"
      by (auto simp: GetPendingQuoteRequests_def conn_fault_def split: list.splits if_splits)
    show ?thesis
    proof (cases "GetMultipleExchangeRates (extractUniqueCurrencies reqs) http")
      case (Panic p)
      with d Inr rows show ?thesis
        by (simp add: processPendingRequests_def untouched_refl)
    next
      case (Return r)
      show ?thesis
      proof (cases r)
        case (Inl err)
        with d Inr Return rows S
          untouched_update_each [of reqs
            "log_line ErrorLevel ''Failed to get batch exchange rates'' w1"]
        show ?thesis
          by (simp add: processPendingRequests_def markAllRequestsAsFailed_def untouched_refl)
      next
        case (Inr usdRates)
        have "ID ` set (concat (map snd (range_map rank (currencyPairMap reqs)))) = ?S"
          using S by (simp only: set_groups)
        then have "untouched_outside ?S (quote_requests w1)
            (quote_requests (snd (process_groups (range_map rank (currencyPairMap reqs))
               usdRates w1)))"
          using untouched_process_groups [of "range_map rank (currencyPairMap reqs)" w1 usdRates]
          by simp
        with d \<open>res = Inr reqs\<close> Return Inr rows show ?thesis
          by (simp add: processPendingRequests_def untouched_refl)
      qed
    qed
  qed
qed

text \<open>
  C7. A request that is past \<open>pending\<close> is not transitioned by a later cycle: whatever
  the store holds (ids being unique, as the primary key has it), whatever the rate
  source answers, whatever the connection does and in whatever order the groups are
  visited, a cycle leaves every row whose status is not \<open>pending\<close> exactly as it
  was, status included, and neither adds nor removes rows.
\<close>

theorem C7_terminal_untouched:
  assumes "quote_requests_pkey (quote_requests w)"
  shows "length (quote_requests (snd (processPendingRequests rank http w)))
           = length (quote_requests w)
       \<and> (\<forall>i<length (quote_requests w).
             Status (quote_requests w ! i) \<noteq> ''pending'' \<longrightarrow>
             quote_requests (snd (processPendingRequests rank http w)) ! i
               = quote_requests w ! i)"
proof -
  let ?rows = "quote_requests w"
  let ?rows' = "quote_requests (snd (processPendingRequests rank http w))"
  let ?S = "ID ` {r \<in> set ?rows. Status r = ''pending''}"
  have u: "list_all2 (\<lambda>r r'. ID r' = ID r \<and> (ID r \<notin> ?S \<longrightarrow> r' = r)) ?rows ?rows'"
    using untouched_processPendingRequests [of w rank http]
    by (simp only: untouched_outside_def)
  then have len: "length ?rows' = length ?rows"
    by (simp add: list_all2_lengthD)
  have inj: "inj_on ID (set ?rows)"
    using assms by (simp add: quote_requests_pkey_def distinct_map)
  have "?rows' ! i = ?rows ! i" if i: "i < length ?rows" and st: "Status (?rows ! i) \<noteq> ''pending''"
    for i
  proof -
    have "ID (?rows ! i) \<notin> ?S"
    proof
      assume "ID (?rows ! i) \<in> ?S"
      then obtain r where r: "r \<in> set ?rows" "Status r = ''pending''" "ID r = ID (?rows ! i)"
        by auto
      with inj i have "r = ?rows ! i"
        by (auto dest: inj_onD)
      with r st show False by simp
    qed
    with list_all2_nthD [OF u i] show ?thesis by simp
  qed
  with len show ?thesis by simp
qed

theorem C7_terminal_untouched_witness:
  "Status (quote_requests sample_world ! 2) = ''completed''
   \<and> quote_requests (snd (processPendingRequests (\<lambda>k. 0) sample_response sample_world)) ! 2
       = quote_requests sample_world ! 2
   \<and> quote_requests (snd (processPendingRequests (\<lambda>k. 0) TransportError sample_world)) ! 2
       = quote_requests sample_world ! 2"
proof -
  have pk: "quote_requests_pkey (quote_requests sample_world)"
    by (simp add: sample_world_def sample_requests_def quote_requests_pkey_def)
  have st: "Status (quote_requests sample_world ! 2) = ''completed''"
    "2 < length (quote_requests sample_world)"
    by (simp_all add: sample_world_def sample_requests_def)
  show ?thesis
    using C7_terminal_untouched [OF pk, of "\<lambda>k. 0" sample_response]
      C7_terminal_untouched [OF pk, of "\<lambda>k. 0" TransportError] st
    by simp
qed

subsection \<open>Status writes on a database that answers\<close>

lemma written_refl: "written Map.empty rows rows"
  by (simp add: written_def list_all2_same)

lemma written_trans:
  assumes "written f a b" and "written g b c"
  shows "written (f ++ g) a c"
proof -
  have "list_all2 (\<lambda>r r''. ID r'' = ID r \<and> From r'' = From r \<and> To r'' = To r
                  \<and> CreatedAt r'' = CreatedAt r
                  \<and> (case (f ++ g) (ID r) of None \<Rightarrow> r'' = r | Some st \<Rightarrow> Status r'' = st)) a c"
    using assms [unfolded written_def]
    by (rule list_all2_trans [rotated]) (auto simp: map_add_def split: option.splits)
  then show ?thesis by (simp only: written_def)
qed

lemma written_set_status: "written [rid \<mapsto> st] rows (map (set_status rid st t) rows)"
  by (simp add: written_def list_all2_map2 list_all2_same set_status_def)

lemma written_nth:
  assumes "written f rows rows'" and "i < length rows"
  shows "ID (rows' ! i) = ID (rows ! i) \<and> From (rows' ! i) = From (rows ! i)
       \<and> To (rows' ! i) = To (rows ! i) \<and> CreatedAt (rows' ! i) = CreatedAt (rows ! i)
       \<and> (case f (ID (rows ! i)) of None \<Rightarrow> rows' ! i = rows ! i
            | Some st \<Rightarrow> Status (rows' ! i) = st)"
  using list_all2_nthD [OF assms(1) [unfolded written_def] assms(2)] by simp

lemma written_length: "written f rows rows' \<Longrightarrow> length rows' = length rows"
  by (simp add: written_def list_all2_lengthD)

lemma update_each_answers:
  assumes "conn_faults w = []" and "idx_pending_quote_requests (quote_requests w)"
    and "st \<noteq> ''pending''"
  shows "conn_faults (update_each st msg reqs w) = []
       \<and> idx_pending_quote_requests (quote_requests (update_each st msg reqs w))
       \<and> quotes (update_each st msg reqs w) = quotes w
       \<and> logs (update_each st msg reqs w) = logs w
       \<and> clock (update_each st msg reqs w) = clock w
       \<and> ticks (update_each st msg reqs w) = ticks w + length reqs
       \<and> written (\<lambda>i. if i \<in> ID ` set reqs then Some st else None)
            (quote_requests w) (quote_requests (update_each st msg reqs w))"
  using assms(1,2)
proof (induction reqs arbitrary: w)
  case Nil
  then show ?case by (simp add: written_refl)
next
  case (Cons req reqs)
  let ?rows1 = "map (set_status (ID req) st (clock w (ticks w))) (quote_requests w)"
  let ?w1 = "w\<lparr>ticks := Suc (ticks w), quote_requests := ?rows1\<rparr>"
  have idx1: "idx_pending_quote_requests ?rows1"
    using Cons.prems(2) assms(3) by (rule idx_pending_set_status)
  then have u: "UpdateQuoteRequestStatus (ID req) st w = (None, ?w1)"
    using Cons.prems(1) by (simp add: UpdateQuoteRequestStatus_healthy)
  have h1: "conn_faults ?w1 = []" "idx_pending_quote_requests (quote_requests ?w1)"
    using Cons.prems(1) idx1 by simp_all
  note IH = Cons.IH [OF h1]
  have "written ([ID req \<mapsto> st] ++ (\<lambda>i. if i \<in> ID ` set reqs then Some st else None))
          (quote_requests w) (quote_requests (update_each st msg reqs ?w1))"
    using written_trans [OF written_set_status [of "ID req" st "quote_requests w" "clock w (ticks w)"]]
      IH by simp
  moreover have "[ID req \<mapsto> st] ++ (\<lambda>i. if i \<in> ID ` set reqs then Some st else None)
      = (\<lambda>i. if i \<in> ID ` set (req # reqs) then Some st else None)"
    by (rule ext) (simp add: map_add_def)
  ultimately show ?case
    using IH u by simp
qed

text \<open>
  C3. Let the database answer and the store be well formed (unique ids, at most one
  pending request per pair). If discovery returns a list of requests that is not empty
  and the one call of the rate source returns an error, then the cycle returns
  normally, every request that was pending has status \<open>failed\<close>, every other row is
  as it was, and the quotes table is as it was. Nothing else was done: the clock was read
  once per discovered request (by its status write), and the log gained the line for the
  failed fetch only.
\<close>

theorem C3_fetch_failure_fails_all:
  assumes "conn_faults w = []" and "idx_pending_quote_requests (quote_requests w)"
    and "quote_requests_pkey (quote_requests w)"
    and "GetPendingQuoteRequests w = (Inr requests, w1)" and "requests \<noteq> []"
    and "GetMultipleExchangeRates (extractUniqueCurrencies requests) http = Return (Inl err)"
  shows "\<exists>w'. processPendingRequests rank http w = (None, w')
           \<and> quotes w' = quotes w
           \<and> ticks w' = ticks w + length requests
           \<and> logs w' = logs w @ [(ErrorLevel, ''Failed to get batch exchange rates'')]
           \<and> length (quote_requests w') = length (quote_requests w)
           \<and> (\<forall>i<length (quote_requests w).
                 ID (quote_requests w' ! i) = ID (quote_requests w ! i)
               \<and> From (quote_requests w' ! i) = From (quote_requests w ! i)
               \<and> To (quote_requests w' ! i) = To (quote_requests w ! i)
               \<and> CreatedAt (quote_requests w' ! i) = CreatedAt (quote_requests w ! i)
               \<and> (if Status (quote_requests w ! i) = ''pending''
                   then Status (quote_requests w' ! i) = ''failed''
                   else quote_requests w' ! i = quote_requests w ! i))"
proof -
  let ?rows = "quote_requests w"
  let ?v = "log_line ErrorLevel ''Failed to get batch exchange rates'' w"
  let ?w' = "update_each ''failed'' ''Failed to update request status to failed'' requests ?v"
  from assms(1,4) have w1: "w1 = w"
    and reqs: "requests = sort_key CreatedAt (filter (\<lambda>r. Status r = ''pending'') ?rows)"
    by (auto simp: GetPendingQuoteRequests_def)
  have run: "processPendingRequests rank http w = (None, ?w')"
    using assms(4,5,6) w1
    by (simp add: processPendingRequests_def markAllRequestsAsFailed_def)
  have v: "conn_faults ?v = []" "idx_pending_quote_requests (quote_requests ?v)"
    using assms(1,2) by (simp_all add: log_line_def)
  have ne: "''failed'' \<noteq> ''pending''" by simp
  note eff = update_each_answers [OF v ne, of "''Failed to update request status to failed''" requests]
  have S: "ID ` set requests = ID ` {r \<in> set ?rows. Status r = ''pending''}"
    using reqs by auto
  have wr: "written (\<lambda>i. if i \<in> ID ` set requests then Some ''failed'' else None) ?rows
      (quote_requests ?w')"
    using eff by simp
  have inj: "inj_on ID (set ?rows)"
    using assms(3) by (simp add: quote_requests_pkey_def distinct_map)
  have mem: "ID (?rows ! i) \<in> ID ` set requests \<longleftrightarrow> Status (?rows ! i) = ''pending''"
    if i: "i < length ?rows" for i
  proof
    assume "ID (?rows ! i) \<in> ID ` set requests"
    then obtain r where r: "r \<in> set ?rows" "Status r = ''pending''" "ID r = ID (?rows ! i)"
      unfolding S by auto
    with inj i have "r = ?rows ! i" by (auto dest: inj_onD)
    with r show "Status (?rows ! i) = ''pending''" by simp
  next
    assume "Status (?rows ! i) = ''pending''"
    with i show "ID (?rows ! i) \<in> ID ` set requests"
      unfolding S by auto
  qed
  have rows: "ID (quote_requests ?w' ! i) = ID (?rows ! i)
               \<and> From (quote_requests ?w' ! i) = From (?rows ! i)
               \<and> To (quote_requests ?w' ! i) = To (?rows ! i)
               \<and> CreatedAt (quote_requests ?w' ! i) = CreatedAt (?rows ! i)
               \<and> (if Status (?rows ! i) = ''pending''
                   then Status (quote_requests ?w' ! i) = ''failed''
                   else quote_requests ?w' ! i = ?rows ! i)"
    if i: "i < length ?rows" for i
    using written_nth [OF wr i] mem [OF i] by (simp split: if_splits)
  have "quotes ?w' = quotes w" "ticks ?w' = ticks w + length requests"
    "logs ?w' = logs w @ [(ErrorLevel, ''Failed to get batch exchange rates'')]"
    using eff by (simp_all add: log_line_def)
  with run rows written_length [OF wr] show ?thesis
    by simp
qed


lemma sample_discovered:
  "GetPendingQuoteRequests sample_world =
     (Inr [\<lparr>ID = ''1001'', From = ''EUR'', To = ''MXN'', Status = ''pending'',
            CreatedAt = 1001, UpdatedAt = 1001\<rparr>,
           \<lparr>ID = ''1002'', From = ''USD'', To = ''EUR'', Status = ''pending'',
            CreatedAt = 1002, UpdatedAt = 1002\<rparr>], sample_world)"
  by (simp add: GetPendingQuoteRequests_def conn_fault_def sample_world_def sample_requests_def)

lemma sample_store_ok:
  "conn_faults sample_world = []"
  "idx_pending_quote_requests (quote_requests sample_world)"
  "quote_requests_pkey (quote_requests sample_world)"
  by (simp_all add: sample_world_def sample_requests_def idx_pending_quote_requests_def
      quote_requests_pkey_def)

theorem C3_fetch_failure_fails_all_witness:
  "\<exists>w'. processPendingRequests (\<lambda>k. 0) TransportError sample_world = (None, w')
      \<and> quotes w' = []
      \<and> Status (quote_requests w' ! 0) = ''failed''
      \<and> Status (quote_requests w' ! 1) = ''failed''
      \<and> quote_requests w' ! 2 = quote_requests sample_world ! 2"
proof -
  have f: "GetMultipleExchangeRates
      (extractUniqueCurrencies
         [\<lparr>ID = ''1001'', From = ''EUR'', To = ''MXN'', Status = ''pending'',
            CreatedAt = 1001, UpdatedAt = 1001\<rparr>,
           \<lparr>ID = ''1002'', From = ''USD'', To = ''EUR'', Status = ''pending'',
            CreatedAt = 1002, UpdatedAt = 1002\<rparr>]) TransportError = Return (Inl RequestFailed)"
    by (simp add: GetMultipleExchangeRates_def extractUniqueCurrencies_def)
  from C3_fetch_failure_fails_all [OF sample_store_ok sample_discovered _ f, of "\<lambda>k. 0"]
  obtain w' where run: "processPendingRequests (\<lambda>k. 0) TransportError sample_world = (None, w')"
    and q: "quotes w' = quotes sample_world"
    and rows: "\<forall>i<length (quote_requests sample_world).
                 ID (quote_requests w' ! i) = ID (quote_requests sample_world ! i)
               \<and> From (quote_requests w' ! i) = From (quote_requests sample_world ! i)
               \<and> To (quote_requests w' ! i) = To (quote_requests sample_world ! i)
               \<and> CreatedAt (quote_requests w' ! i) = CreatedAt (quote_requests sample_world ! i)
               \<and> (if Status (quote_requests sample_world ! i) = ''pending''
                   then Status (quote_requests w' ! i) = ''failed''
                   else quote_requests w' ! i = quote_requests sample_world ! i)"
    by auto
  from rows have "Status (quote_requests w' ! 0) = ''failed''"
    "Status (quote_requests w' ! 1) = ''failed''"
    "quote_requests w' ! 2 = quote_requests sample_world ! 2"
    by (simp_all add: sample_world_def sample_requests_def)
  moreover from q have "quotes w' = []"
    by (simp add: sample_world_def)
  ultimately show ?thesis using run by blast
qed

subsection \<open>Generated ids\<close>

lemma dec_digit: "n < 10 \<Longrightarrow> dec n = [char_of (48 + n)]"
  by (simp add: dec.simps)

lemma dec_snoc: "10 \<le> n \<Longrightarrow> dec n = dec (n div 10) @ [char_of (48 + n mod 10)]"
  by (subst dec.simps) simp

lemma dec_not_Nil: "dec n \<noteq> []"
  by (subst dec.simps) simp

lemma digit_char_inj:
  assumes "a < 10" and "b < 10" and "(char_of (48 + a) :: char) = char_of (48 + b)"
  shows "a = (b::nat)"
proof -
  from assms(3) have "of_char (char_of (48 + a) :: char) = (of_char (char_of (48 + b) :: char) :: nat)"
    by simp
  with assms(1,2) show ?thesis by simp
qed

lemma dec_inj: "dec m = dec n \<Longrightarrow> m = n"
proof (induction m arbitrary: n rule: dec.induct)
  case (1 m)
  show ?case
  proof (cases "m < 10")
    case True
    show ?thesis
    proof (cases "n < 10")
      case n: True
      with True "1.prems" show ?thesis
        by (auto simp: dec_digit dest: digit_char_inj)
    next
      case False
      with True "1.prems" dec_not_Nil [of "n div 10"] show ?thesis
        by (simp add: dec_digit dec_snoc)
    qed
  next
    case False
    show ?thesis
    proof (cases "n < 10")
      case True
      with False "1.prems" dec_not_Nil [of "m div 10"] show ?thesis
        by (simp add: dec_digit dec_snoc)
    next
      case n: False
      with False "1.prems" have "dec (m div 10) = dec (n div 10)"
        and "(char_of (48 + m mod 10) :: char) = char_of (48 + n mod 10)"
        by (simp_all add: dec_snoc)
      with False "1.IH" [of "n div 10"] have "m div 10 = n div 10" and "m mod 10 = n mod 10"
        by (auto dest: digit_char_inj)
      then show ?thesis
        by (metis div_mult_mod_eq)
    qed
  qed
qed

lemma quote_ids_fresh_later:
  assumes "quote_ids_fresh w" and "clock w' = clock w" and "ticks w \<le> ticks w'"
    and "quotes w' = quotes w"
  shows "quote_ids_fresh w'"
  using assms by (auto simp: quote_ids_fresh_def)

subsection \<open>Upserts on a database that answers\<close>

lemma upserted_refl: "upserted Map.empty qs qs"
  by (simp add: upserted_def)

lemma upserted_trans:
  assumes "upserted g a b" and "upserted h b c"
  shows "upserted (g ++ h) a c"
  unfolding upserted_def
proof (intro allI)
  fix "from" to
  let ?find = "find (\<lambda>q. QuoteFrom q = from \<and> QuoteTo q = to)"
  have 1: "case g (from, to) of None \<Rightarrow> ?find b = ?find a
           | Some rate \<Rightarrow> map_option Rate (?find b) = Some rate"
    using assms(1) by (simp add: upserted_def)
  have 2: "case h (from, to) of None \<Rightarrow> ?find c = ?find b
           | Some rate \<Rightarrow> map_option Rate (?find c) = Some rate"
    using assms(2) by (simp add: upserted_def)
  from 1 2
  show "case (g ++ h) (from, to) of None \<Rightarrow> ?find c = ?find a
         | Some rate \<Rightarrow> map_option Rate (?find c) = Some rate"
    by (auto simp: map_add_def split: option.splits)
qed

lemma set_rate_fields [simp]:
  "QuoteID (set_rate from to rate now q) = QuoteID q"
  "QuoteFrom (set_rate from to rate now q) = QuoteFrom q"
  "QuoteTo (set_rate from to rate now q) = QuoteTo q"
  by (simp_all add: set_rate_def)

lemma find_set_rate_other:
  "(f, t) \<noteq> (from, to) \<Longrightarrow>
   find (\<lambda>q. QuoteFrom q = f \<and> QuoteTo q = t) (map (set_rate from to rate now) qs)
     = find (\<lambda>q. QuoteFrom q = f \<and> QuoteTo q = t) qs"
  by (induction qs) (auto simp: set_rate_def)

lemma find_set_rate_same:
  "(from, to) \<in> set (map (\<lambda>q. (QuoteFrom q, QuoteTo q)) qs) \<Longrightarrow>
   map_option Rate (find (\<lambda>q. QuoteFrom q = from \<and> QuoteTo q = to)
      (map (set_rate from to rate now) qs)) = Some rate"
  by (induction qs) (auto simp: set_rate_def)

lemma find_append_new_other:
  "\<not> P x \<Longrightarrow> find P (qs @ [x]) = find P qs"
  by (induction qs) auto

lemma find_append_new_same:
  "\<forall>q\<in>set qs. \<not> P q \<Longrightarrow> P x \<Longrightarrow> find P (qs @ [x]) = Some x"
  by (induction qs) auto

lemma map_QuoteID_set_rate [simp]:
  "map QuoteID (map (set_rate from to rate now) qs) = map QuoteID qs"
  by (simp add: set_rate_def comp_def)

lemma UpsertQuote_answers:
  assumes "conn_faults w = []" and "quote_ids_fresh w"
  shows "\<exists>w'. UpsertQuote from to rate w = (None, w')
           \<and> conn_faults w' = [] \<and> quote_requests w' = quote_requests w
           \<and> clock w' = clock w \<and> ticks w' = ticks w + 2 \<and> logs w' = logs w
           \<and> quote_ids_fresh w'
           \<and> upserted [(from, to) \<mapsto> rate] (quotes w) (quotes w')"
proof (cases "(from, to) \<in> set (map (\<lambda>q. (QuoteFrom q, QuoteTo q)) (quotes w))")
  case True
  let ?qs' = "map (set_rate from to rate (clock w (ticks w))) (quotes w)"
  let ?w' = "w\<lparr>ticks := Suc (Suc (ticks w)), quotes := ?qs'\<rparr>"
  have run: "UpsertQuote from to rate w = (None, ?w')"
    using assms(1) True
    by (simp add: UpsertQuote_def time_Now_def generateID_def conn_fault_def)
  have "quote_ids_fresh ?w'"
    using assms(2) by (auto simp: quote_ids_fresh_def)
  moreover have "upserted [(from, to) \<mapsto> rate] (quotes w) ?qs'"
    using True by (auto simp: upserted_def find_set_rate_other find_set_rate_same)
  ultimately show ?thesis
    using run assms(1) by simp
next
  case False
  let ?qid = "dec (clock w (Suc (ticks w)))"
  let ?new = "\<lparr>QuoteID = ?qid, QuoteFrom = from, QuoteTo = to, Rate = rate,
                 QuoteCreatedAt = clock w (ticks w), QuoteUpdatedAt = clock w (ticks w)\<rparr>"
  let ?w' = "w\<lparr>ticks := Suc (Suc (ticks w)), quotes := quotes w @ [?new]\<rparr>"
  have unused: "?qid \<notin> set (map QuoteID (quotes w))"
    using assms(2) by (simp add: quote_ids_fresh_def)
  have run: "UpsertQuote from to rate w = (None, ?w')"
    using assms(1) False unused
    by (simp add: UpsertQuote_def time_Now_def generateID_def conn_fault_def)
  have "dec (clock w n) \<noteq> ?qid" if "Suc (Suc (ticks w)) \<le> n" for n
  proof
    assume "dec (clock w n) = ?qid"
    then have "clock w n = clock w (Suc (ticks w))" by (rule dec_inj)
    moreover from assms(2) that have "clock w n \<noteq> clock w (Suc (ticks w))"
      by (simp add: quote_ids_fresh_def)
    ultimately show False by simp
  qed
  with assms(2) have "quote_ids_fresh ?w'"
    by (auto simp: quote_ids_fresh_def)
  moreover have "upserted [(from, to) \<mapsto> rate] (quotes w) (quotes w @ [?new])"
    unfolding upserted_def
  proof (intro allI)
    fix f t
    show "case [(from, to) \<mapsto> rate] (f, t) of
         None \<Rightarrow> find (\<lambda>q. QuoteFrom q = f \<and> QuoteTo q = t) (quotes w @ [?new])
                  = find (\<lambda>q. QuoteFrom q = f \<and> QuoteTo q = t) (quotes w)
       | Some rate \<Rightarrow> map_option Rate (find (\<lambda>q. QuoteFrom q = f \<and> QuoteTo q = t)
                         (quotes w @ [?new])) = Some rate"
    proof (cases "(f, t) = (from, to)")
      case True
      moreover from False have "\<forall>q\<in>set (quotes w). \<not> (QuoteFrom q = from \<and> QuoteTo q = to)"
        by auto
      ultimately show ?thesis
        by (simp add: find_append_new_same)
    next
      case False
      then show ?thesis
        by (auto simp: find_append_new_other)
    qed
  qed
  ultimately show ?thesis
    using run assms(1) by simp
qed

subsection \<open>One group on a database that answers\<close>

lemma const_on_twice:
  "(\<lambda>i. if i \<in> S then Some a else None) ++ (\<lambda>i. if i \<in> S then Some b else None)
     = (\<lambda>i. if i \<in> S then Some (b::string) else None)"
  by (rule ext) (simp add: map_add_def)

lemma upserted_cycle_quote:
  "CalculateExchangeRate (From req) (To req) usdRates = Inr rate \<Longrightarrow>
   cycle_quote usdRates req = [(From req, To req) \<mapsto> rate]"
  "CalculateExchangeRate (From req) (To req) usdRates = Inl err \<Longrightarrow>
   cycle_quote usdRates req = Map.empty"
  by (rule ext, simp add: cycle_quote_def pair_quote_def)+

lemma processCurrencyPairWithRates_answers:
  assumes "conn_faults w = []" and "idx_pending_quote_requests (quote_requests w)"
    and "quote_ids_fresh w" and "reqs \<noteq> []"
  shows "\<exists>w'. processCurrencyPairWithRates pair reqs usdRates w = (None, w')
           \<and> conn_faults w' = [] \<and> idx_pending_quote_requests (quote_requests w')
           \<and> quote_ids_fresh w' \<and> clock w' = clock w \<and> ticks w \<le> ticks w'
           \<and> written (\<lambda>i. if i \<in> ID ` set reqs
                            then Some (cycle_status usdRates (hd reqs)) else None)
                (quote_requests w) (quote_requests w')
           \<and> upserted (cycle_quote usdRates (hd reqs)) (quotes w) (quotes w')"
proof -
  let ?S = "ID ` set reqs"
  let ?w1 = "update_each ''processing'' ''Failed to update request status to processing'' reqs w"
  have ne: "''processing'' \<noteq> ''pending''" "''failed'' \<noteq> ''pending''"
    "''completed'' \<noteq> ''pending''" by simp_all
  note e1 = update_each_answers [OF assms(1,2) ne(1),
      of "''Failed to update request status to processing''" reqs]
  have f1: "quote_ids_fresh ?w1"
    using assms(3) e1 by (auto intro: quote_ids_fresh_later)
  have wr1: "written (\<lambda>i. if i \<in> ?S then Some ''processing'' else None)
      (quote_requests w) (quote_requests ?w1)"
    using e1 by simp
  show ?thesis
  proof (cases "CalculateExchangeRate (From (hd reqs)) (To (hd reqs)) usdRates")
    case (Inl err)
    let ?v = "log_line ErrorLevel ''Failed to calculate exchange rate'' ?w1"
    let ?w' = "update_each ''failed'' ''Failed to update request status to failed'' reqs ?v"
    have v: "conn_faults ?v = []" "idx_pending_quote_requests (quote_requests ?v)"
      using e1 by (simp_all add: log_line_def)
    note e2 = update_each_answers [OF v ne(2),
        of "''Failed to update request status to failed''" reqs]
    have run: "processCurrencyPairWithRates pair reqs usdRates w = (None, ?w')"
      using Inl by (simp add: processCurrencyPairWithRates_Cons [OF assms(4)])
    have st: "cycle_status usdRates (hd reqs) = ''failed''"
      using Inl by (simp add: cycle_status_def)
    have "written (\<lambda>i. if i \<in> ?S then Some ''failed'' else None)
        (quote_requests ?w1) (quote_requests ?w')"
      using e2 by simp
    from written_trans [OF wr1 this]
    have wr: "written (\<lambda>i. if i \<in> ?S then Some (cycle_status usdRates (hd reqs)) else None)
        (quote_requests w) (quote_requests ?w')"
      by (simp only: const_on_twice st)
    have q: "quotes ?w' = quotes w"
      using e1 e2 by (simp add: log_line_def)
    have c: "clock ?w' = clock w" "ticks w \<le> ticks ?w'"
      using e1 e2 by (simp_all add: log_line_def)
    have fr: "quote_ids_fresh ?w'"
      using assms(3) c q by (rule quote_ids_fresh_later)
    have up: "upserted (cycle_quote usdRates (hd reqs)) (quotes w) (quotes ?w')"
      using Inl q by (simp add: upserted_cycle_quote upserted_refl)
    have h: "conn_faults ?w' = []" "idx_pending_quote_requests (quote_requests ?w')"
      using e2 by simp_all
    from run h fr c wr up show ?thesis by blast
  next
    case (Inr rate)
    from UpsertQuote_answers [of ?w1 "From (hd reqs)" "To (hd reqs)" rate] e1 f1
    obtain w2 where u: "UpsertQuote (From (hd reqs)) (To (hd reqs)) rate ?w1 = (None, w2)"
      and w2: "conn_faults w2 = []" "quote_requests w2 = quote_requests ?w1"
        "clock w2 = clock ?w1" "ticks w2 = ticks ?w1 + 2" "quote_ids_fresh w2"
      and up2: "upserted [(From (hd reqs), To (hd reqs)) \<mapsto> rate] (quotes ?w1) (quotes w2)"
      by auto
    let ?w' = "update_each ''completed'' ''Failed to update request status to completed'' reqs w2"
    have v: "conn_faults w2 = []" "idx_pending_quote_requests (quote_requests w2)"
      using e1 w2 by simp_all
    note e2 = update_each_answers [OF v ne(3),
        of "''Failed to update request status to completed''" reqs]
    have run: "processCurrencyPairWithRates pair reqs usdRates w = (None, ?w')"
      using Inr u by (simp add: processCurrencyPairWithRates_Cons [OF assms(4)])
    have st: "cycle_status usdRates (hd reqs) = ''completed''"
      using Inr by (simp add: cycle_status_def)
    have "written (\<lambda>i. if i \<in> ?S then Some ''completed'' else None)
        (quote_requests ?w1) (quote_requests ?w')"
      using e2 w2(2) by simp
    from written_trans [OF wr1 this]
    have wr: "written (\<lambda>i. if i \<in> ?S then Some (cycle_status usdRates (hd reqs)) else None)
        (quote_requests w) (quote_requests ?w')"
      by (simp only: const_on_twice st)
    have c: "clock ?w' = clock w" "ticks w \<le> ticks ?w'"
      using e1 e2 w2 by simp_all
    have c2: "clock ?w' = clock w2" "ticks w2 \<le> ticks ?w'" "quotes ?w' = quotes w2"
      using e2 by simp_all
    have fr: "quote_ids_fresh ?w'"
      using w2(5) c2 by (rule quote_ids_fresh_later)
    have "quotes ?w1 = quotes w" using e1 by simp
    with up2 c2(3) Inr
    have up: "upserted (cycle_quote usdRates (hd reqs)) (quotes w) (quotes ?w')"
      by (simp add: upserted_cycle_quote)
    have h: "conn_faults ?w' = []" "idx_pending_quote_requests (quote_requests ?w')"
      using e2 by simp_all
    from run h fr c wr up show ?thesis by blast
  qed
qed

lemma process_groups_answers:
  assumes "conn_faults w = []" and "idx_pending_quote_requests (quote_requests w)"
    and "quote_ids_fresh w" and "\<forall>g\<in>set groups. snd g \<noteq> []"
  shows "\<exists>w'. process_groups groups usdRates w = (None, w')
           \<and> conn_faults w' = [] \<and> idx_pending_quote_requests (quote_requests w')
           \<and> quote_ids_fresh w' \<and> clock w' = clock w \<and> ticks w \<le> ticks w'
           \<and> written (outcomes usdRates groups) (quote_requests w) (quote_requests w')
           \<and> upserted (quote_writes usdRates groups) (quotes w) (quotes w')"
  using assms
proof (induction groups arbitrary: w)
  case Nil
  then show ?case by (simp add: written_refl upserted_refl)
next
  case (Cons g groups)
  obtain pair reqs where g: "g = (pair, reqs)" by (cases g)
  with Cons.prems(4) have ne: "reqs \<noteq> []" and rest: "\<forall>g\<in>set groups. snd g \<noteq> []"
    by simp_all
  from processCurrencyPairWithRates_answers [OF Cons.prems(1,2,3) ne, of pair usdRates]
  obtain w1 where s: "processCurrencyPairWithRates pair reqs usdRates w = (None, w1)"
    and w1: "conn_faults w1 = []" "idx_pending_quote_requests (quote_requests w1)"
      "quote_ids_fresh w1"
    and c1: "clock w1 = clock w" "ticks w \<le> ticks w1"
    and wr1: "written (\<lambda>i. if i \<in> ID ` set reqs
                            then Some (cycle_status usdRates (hd reqs)) else None)
                (quote_requests w) (quote_requests w1)"
    and up1: "upserted (cycle_quote usdRates (hd reqs)) (quotes w) (quotes w1)"
    by blast
  from Cons.IH [OF w1 rest]
  obtain w' where r: "process_groups groups usdRates w1 = (None, w')"
    and w': "conn_faults w' = []" "idx_pending_quote_requests (quote_requests w')"
      "quote_ids_fresh w'"
    and c': "clock w' = clock w1" "ticks w1 \<le> ticks w'"
    and wr': "written (outcomes usdRates groups) (quote_requests w1) (quote_requests w')"
    and up': "upserted (quote_writes usdRates groups) (quotes w1) (quotes w')"
    by blast
  have "process_groups (g # groups) usdRates w = (None, w')"
    using g s r by simp
  moreover have "written (outcomes usdRates (g # groups)) (quote_requests w) (quote_requests w')"
    using written_trans [OF wr1 wr'] g by simp
  moreover have "upserted (quote_writes usdRates (g # groups)) (quotes w) (quotes w')"
    using upserted_trans [OF up1 up'] g by simp
  ultimately show ?case
    using w' c1 c' by simp
qed

subsection \<open>The groups of a cycle\<close>

lemma map_append_keys:
  assumes "\<forall>g\<in>set m. snd g \<noteq> [] \<and> (\<forall>r\<in>set (snd g). pairKey r = fst g)"
  shows "\<forall>g\<in>set (map_append (pairKey req) req m).
           snd g \<noteq> [] \<and> (\<forall>r\<in>set (snd g). pairKey r = fst g)"
  using assms
proof (induction m)
  case Nil
  show ?case by simp
next
  case (Cons kv m)
  obtain k reqs where kv: "kv = (k, reqs)" by (cases kv)
  from Cons.prems kv have h: "reqs \<noteq> []" "\<forall>r\<in>set reqs. pairKey r = k"
    and t: "\<forall>g\<in>set m. snd g \<noteq> [] \<and> (\<forall>r\<in>set (snd g). pairKey r = fst g)"
    by simp_all
  show ?case
  proof (cases "k = pairKey req")
    case True
    have "map_append (pairKey req) req (kv # m) = (k, reqs @ [req]) # m"
      using True by (simp add: kv)
    moreover have "\<forall>r\<in>set (reqs @ [req]). pairKey r = k"
      using h(2) True by auto
    ultimately show ?thesis
      using t by auto
  next
    case False
    have "map_append (pairKey req) req (kv # m) = (k, reqs) # map_append (pairKey req) req m"
      using False by (simp add: kv)
    with h Cons.IH [OF t] show ?thesis
      by auto
  qed
qed


lemma currencyPairMap_keys_aux:
  assumes "\<forall>g\<in>set m. snd g \<noteq> [] \<and> (\<forall>r\<in>set (snd g). pairKey r = fst g)"
  shows "\<forall>g\<in>set (foldl (\<lambda>m req. map_append (pairKey req) req m) m reqs).
           snd g \<noteq> [] \<and> (\<forall>r\<in>set (snd g). pairKey r = fst g)"
  using assms
proof (induction reqs arbitrary: m)
  case Nil
  from Nil show ?case unfolding foldl.simps .
next
  case (Cons req reqs)
  have step: "\<forall>g\<in>set (map_append (pairKey req) req m).
           snd g \<noteq> [] \<and> (\<forall>r\<in>set (snd g). pairKey r = fst g)"
    using Cons.prems by (rule map_append_keys)
  show ?case
    unfolding foldl.simps using step by (rule Cons.IH)
qed


lemma groups_keys:
  "\<forall>g\<in>set (range_map rank (currencyPairMap reqs)).
     snd g \<noteq> [] \<and> (\<forall>r\<in>set (snd g). pairKey r = fst g)"
proof -
  have "\<forall>g\<in>set []. snd g \<noteq> [] \<and> (\<forall>r\<in>set (snd g). pairKey r = fst g)"
    by simp
  then have "\<forall>g\<in>set (foldl (\<lambda>m req. map_append (pairKey req) req m) [] reqs).
           snd g \<noteq> [] \<and> (\<forall>r\<in>set (snd g). pairKey r = fst g)"
    by (rule currencyPairMap_keys_aux)
  moreover have "set (range_map rank (currencyPairMap reqs))
      = set (foldl (\<lambda>m req. map_append (pairKey req) req m) [] reqs)"
    by (simp add: range_map_def currencyPairMap_def)
  ultimately show ?thesis by (simp only:)
qed


lemma takeWhile_pairKey:
  assumes "CHR ''/'' \<notin> set (From x)"
  shows "takeWhile (\<lambda>c. c \<noteq> CHR ''/'') (pairKey x) = From x"
proof -
  have "takeWhile (\<lambda>c. c \<noteq> CHR ''/'') (From x @ CHR ''/'' # To x)
      = takeWhile (\<lambda>c. c \<noteq> CHR ''/'') (From x)"
    by (rule takeWhile_tail) simp
  also have "\<dots> = From x"
    using assms by (auto simp: takeWhile_eq_all_conv)
  finally show ?thesis by (simp add: pairKey_def)
qed

lemma pairKey_inj:
  assumes "pairKey r = pairKey r'"
    and "CHR ''/'' \<notin> set (From r)" and "CHR ''/'' \<notin> set (From r')"
  shows "From r = From r' \<and> To r = To r'"
proof -
  have "From r = takeWhile (\<lambda>c. c \<noteq> CHR ''/'') (pairKey r)"
    using assms(2) by (rule takeWhile_pairKey [symmetric])
  also have "\<dots> = takeWhile (\<lambda>c. c \<noteq> CHR ''/'') (pairKey r')"
    by (simp only: assms(1))
  also have "\<dots> = From r'"
    using assms(3) by (rule takeWhile_pairKey)
  finally have 1: "From r = From r'" .
  from assms(1) have "From r @ CHR ''/'' # To r = From r' @ CHR ''/'' # To r'"
    by (simp only: pairKey_def append_Cons append_Nil)
  with 1 have "To r = To r'" by simp
  with 1 show ?thesis by simp
qed

lemma outcomes_outside:
  "i \<notin> ID ` set (concat (map snd groups)) \<Longrightarrow> outcomes usdRates groups i = None"
proof (induction groups)
  case Nil
  show ?case by simp
next
  case (Cons g groups)
  obtain pair reqs where g: "g = (pair, reqs)" by (cases g)
  from Cons.prems g have 1: "i \<notin> ID ` set reqs"
    and 2: "i \<notin> ID ` set (concat (map snd groups))"
    by (simp_all add: image_Un)
  from Cons.IH [OF 2] 1 show ?case
    by (simp add: g map_add_def)
qed

lemma outcomes_member:
  assumes "\<forall>g\<in>set groups. \<forall>r\<in>set (snd g).
             From r = From (hd (snd g)) \<and> To r = To (hd (snd g))"
    and "distinct (map ID (concat (map snd groups)))"
    and "r \<in> set (concat (map snd groups))"
  shows "outcomes usdRates groups (ID r) = Some (cycle_status usdRates r)"
  using assms
proof (induction groups)
  case Nil
  from Nil(3) show ?case by simp
next
  case (Cons g groups)
  obtain pair reqs where g: "g = (pair, reqs)" by (cases g)
  have rest: "\<forall>g\<in>set groups. \<forall>r\<in>set (snd g).
             From r = From (hd (snd g)) \<and> To r = To (hd (snd g))"
    using Cons.prems(1) by (meson list.set_intros(2))
  from Cons.prems(2) g have d: "distinct (map ID (concat (map snd groups)))"
    and disj: "ID ` set reqs \<inter> ID ` set (concat (map snd groups)) = {}"
    by (simp_all add: image_Un)
  show ?case
  proof (cases "r \<in> set (concat (map snd groups))")
    case True
    from Cons.IH [OF rest d True] show ?thesis
      by (simp add: g map_add_def)
  next
    case False
    with Cons.prems(3) g have r: "r \<in> set reqs" by simp
    with disj have "ID r \<notin> ID ` set (concat (map snd groups))"
      by blast
    then have none: "outcomes usdRates groups (ID r) = None"
      by (rule outcomes_outside)
    have "(pair, reqs) \<in> set (g # groups)" by (simp add: g)
    with Cons.prems(1) have "\<forall>r\<in>set (snd (pair, reqs)).
        From r = From (hd (snd (pair, reqs))) \<and> To r = To (hd (snd (pair, reqs)))"
      by (rule bspec)
    then have "\<forall>r\<in>set reqs. From r = From (hd reqs) \<and> To r = To (hd reqs)"
      by (simp only: snd_conv)
    from bspec [OF this r] have "cycle_status usdRates (hd reqs) = cycle_status usdRates r"
      by (simp add: cycle_status_def)
    with none r show ?thesis
      by (simp add: g map_add_def)
  qed
qed

lemma quote_writes_Cons:
  "quote_writes usdRates ((pair, reqs) # groups) p =
     (case quote_writes usdRates groups p of
        None \<Rightarrow> (if p = (From (hd reqs), To (hd reqs)) then pair_quote usdRates p else None)
      | Some rate \<Rightarrow> Some rate)"
  by (simp add: map_add_def cycle_quote_def)

lemma quote_writes_eq:
  "quote_writes usdRates groups p =
     (if p \<in> (\<lambda>g. (From (hd (snd g)), To (hd (snd g)))) ` set groups
      then pair_quote usdRates p else None)"
proof (induction groups)
  case Nil
  show ?case by simp
next
  case (Cons g groups)
  obtain pair reqs where g: "g = (pair, reqs)" by (cases g)
  let ?H = "(\<lambda>g. (From (hd (snd g)), To (hd (snd g)))) ` set groups"
  show ?case
  proof (cases "p \<in> ?H")
    case True
    with Cons.IH have ih: "quote_writes usdRates groups p = pair_quote usdRates p"
      by simp
    show ?thesis
    proof (cases "pair_quote usdRates p")
      case None
      with ih True show ?thesis
        unfolding g quote_writes_Cons by auto
    next
      case (Some rate)
      with ih True show ?thesis
        unfolding g quote_writes_Cons by simp
    qed
  next
    case False
    with Cons.IH have ih: "quote_writes usdRates groups p = None"
      by simp
    with False show ?thesis
      unfolding g quote_writes_Cons by auto
  qed
qed

subsection \<open>A whole cycle on a database that answers\<close>

lemma cycle_status_eq:
  "cycle_status usdRates r =
     (if usdRates (From r) = None \<or> usdRates (To r) = None then ''failed'' else ''completed'')"
  by (auto simp: cycle_status_def CalculateExchangeRate_def split: option.splits)

lemma pair_quote_missing:
  "usdRates f = None \<or> usdRates t = None \<Longrightarrow> pair_quote usdRates (f, t) = None"
  by (auto simp: pair_quote_def CalculateExchangeRate_def split: option.splits)

lemma pair_quote_present:
  "\<not> (usdRates f = None \<or> usdRates t = None) \<Longrightarrow>
   \<exists>rate. CalculateExchangeRate f t usdRates = Inr rate \<and> pair_quote usdRates (f, t) = Some rate"
  by (auto simp: pair_quote_def CalculateExchangeRate_def split: option.splits)

lemma discovered_healthy:
  assumes "conn_faults w = []" and "GetPendingQuoteRequests w = (Inr requests, w1)"
  shows "w1 = w"
    and "requests = sort_key CreatedAt (filter (\<lambda>r. Status r = ''pending'') (quote_requests w))"
  using assms by (auto simp: GetPendingQuoteRequests_def)

lemma discovered_distinct:
  assumes "quote_requests_pkey rows"
  shows "distinct (map ID (sort_key CreatedAt (filter (\<lambda>r. Status r = ''pending'') rows)))"
proof -
  have "distinct (map ID (filter (\<lambda>r. Status r = ''pending'') rows))"
    using assms unfolding quote_requests_pkey_def by (rule distinct_map_filter)
  moreover have "mset (map ID (sort_key CreatedAt (filter (\<lambda>r. Status r = ''pending'') rows)))
      = mset (map ID (filter (\<lambda>r. Status r = ''pending'') rows))"
    by simp
  ultimately show ?thesis
    by (metis mset_eq_imp_distinct_iff)
qed

lemma groups_distinct:
  assumes "distinct (map ID reqs)"
  shows "distinct (map ID (concat (map snd (range_map rank (currencyPairMap reqs)))))"
proof -
  have "mset (concat (map snd (range_map rank (currencyPairMap reqs)))) = mset reqs"
    by (simp only: mset_range_map mset_currencyPairMap)
  then have "mset (map ID (concat (map snd (range_map rank (currencyPairMap reqs)))))
      = mset (map ID reqs)"
    by (metis mset_map)
  with assms show ?thesis
    by (metis mset_eq_imp_distinct_iff)
qed

lemma groups_share_pair:
  assumes "\<forall>r\<in>set reqs. CHR ''/'' \<notin> set (From r)"
    and "g \<in> set (range_map rank (currencyPairMap reqs))" and "r \<in> set (snd g)"
  shows "From r = From (hd (snd g)) \<and> To r = To (hd (snd g))"
proof -
  from groups_keys [of rank reqs] assms(2)
  have ne: "snd g \<noteq> []" and keys: "\<forall>r\<in>set (snd g). pairKey r = fst g"
    by blast+
  from ne have h: "hd (snd g) \<in> set (snd g)" by simp
  from keys assms(3) have 1: "pairKey r = fst g" by (rule bspec)
  from keys h have 2: "pairKey (hd (snd g)) = fst g" by (rule bspec)
  have sub: "set (snd g) \<subseteq> set reqs"
  proof -
    have "set (snd g) \<subseteq> set (concat (map snd (range_map rank (currencyPairMap reqs))))"
      using assms(2) by auto
    then show ?thesis by (simp only: set_groups)
  qed
  from sub assms(3) assms(1) have s1: "CHR ''/'' \<notin> set (From r)" by blast
  from sub h assms(1) have s2: "CHR ''/'' \<notin> set (From (hd (snd g)))" by blast
  from 1 2 have "pairKey r = pairKey (hd (snd g))" by (simp only:)
  then show ?thesis using s1 s2 by (rule pairKey_inj)
qed


lemma upsertedD:
  assumes "upserted g qs qs'"
  shows "case g (f, t) of
         None \<Rightarrow> find (\<lambda>q. QuoteFrom q = f \<and> QuoteTo q = t) qs'
                  = find (\<lambda>q. QuoteFrom q = f \<and> QuoteTo q = t) qs
       | Some rate \<Rightarrow> map_option Rate (find (\<lambda>q. QuoteFrom q = f \<and> QuoteTo q = t) qs')
                  = Some rate"
  using assms by (simp add: upserted_def)

text \<open>
  C4. Let the database answer, the store be well formed (unique ids, at most one pending
  request per pair), the generated quote ids be fresh, and no pending request have a
  \<open>/\<close> in its base code (the engine keys its groups by the string
  \<open>From + "/" + To\<close>). If discovery returns a list that is not empty and the rate
  source returns a table, then the cycle returns normally and, for every request that
  was pending: if a code of its pair is missing from the table, the request is
  \<open>failed\<close> and the quote found for its pair is the one found before the cycle, so
  none was written; otherwise the request is \<open>completed\<close> and the quote found for
  its pair carries the rate that \<open>CalculateExchangeRate\<close> returns. Rows that were not
  pending are as they were. A group that fails takes down its own requests only, in
  whatever order the groups are visited.
\<close>

theorem C4_group_failure_isolated:
  assumes "conn_faults w = []" and "idx_pending_quote_requests (quote_requests w)"
    and "quote_requests_pkey (quote_requests w)" and "quote_ids_fresh w"
    and "\<forall>r\<in>set (quote_requests w). Status r = ''pending'' \<longrightarrow> CHR ''/'' \<notin> set (From r)"
    and "GetPendingQuoteRequests w = (Inr requests, w1)" and "requests \<noteq> []"
    and "GetMultipleExchangeRates (extractUniqueCurrencies requests) http
           = Return (Inr usdRates)"
  shows "\<exists>w'. processPendingRequests rank http w = (None, w')
           \<and> length (quote_requests w') = length (quote_requests w)
           \<and> (\<forall>i<length (quote_requests w).
                 if Status (quote_requests w ! i) \<noteq> ''pending''
                 then quote_requests w' ! i = quote_requests w ! i
                 else ID (quote_requests w' ! i) = ID (quote_requests w ! i)
                    \<and> From (quote_requests w' ! i) = From (quote_requests w ! i)
                    \<and> To (quote_requests w' ! i) = To (quote_requests w ! i)
                    \<and> CreatedAt (quote_requests w' ! i) = CreatedAt (quote_requests w ! i)
                    \<and> (if usdRates (From (quote_requests w ! i)) = None
                           \<or> usdRates (To (quote_requests w ! i)) = None
                        then Status (quote_requests w' ! i) = ''failed''
                           \<and> find (\<lambda>q. QuoteFrom q = From (quote_requests w ! i)
                                        \<and> QuoteTo q = To (quote_requests w ! i)) (quotes w')
                             = find (\<lambda>q. QuoteFrom q = From (quote_requests w ! i)
                                        \<and> QuoteTo q = To (quote_requests w ! i)) (quotes w)
                        else Status (quote_requests w' ! i) = ''completed''
                           \<and> (\<exists>rate. CalculateExchangeRate (From (quote_requests w ! i))
                                         (To (quote_requests w ! i)) usdRates = Inr rate
                                \<and> map_option Rate
                                    (find (\<lambda>q. QuoteFrom q = From (quote_requests w ! i)
                                            \<and> QuoteTo q = To (quote_requests w ! i))
                                       (quotes w')) = Some rate)))"
proof -
  let ?rows = "quote_requests w"
  let ?groups = "range_map rank (currencyPairMap requests)"
  note disc = discovered_healthy [OF assms(1,6)]
  have run0: "processPendingRequests rank http w = process_groups ?groups usdRates w"
    using assms(6,7,8) disc(1) by (simp add: processPendingRequests_def)
  have ne: "\<forall>g\<in>set ?groups. snd g \<noteq> []"
    using groups_keys [of rank requests] by blast
  from process_groups_answers [OF assms(1,2,4) ne, of usdRates]
  obtain w' where run1: "process_groups ?groups usdRates w = (None, w')"
    and wr: "written (outcomes usdRates ?groups) ?rows (quote_requests w')"
    and up: "upserted (quote_writes usdRates ?groups) (quotes w) (quotes w')"
    by blast
  have members: "set (concat (map snd ?groups)) = set requests"
    by (rule set_groups)
  have req_set: "set requests = {r \<in> set ?rows. Status r = ''pending''}"
    unfolding disc(2) by auto
  have slash: "\<forall>r\<in>set requests. CHR ''/'' \<notin> set (From r)"
    using assms(5) unfolding req_set by blast
  have dist: "distinct (map ID (concat (map snd ?groups)))"
    using discovered_distinct [OF assms(3)] unfolding disc(2) [symmetric]
    by (rule groups_distinct)
  have share: "\<forall>g\<in>set ?groups. \<forall>r\<in>set (snd g).
      From r = From (hd (snd g)) \<and> To r = To (hd (snd g))"
    using groups_share_pair [OF slash] by blast
  have inj: "inj_on ID (set ?rows)"
    using assms(3) by (simp add: quote_requests_pkey_def distinct_map)
  have row: "if Status (?rows ! i) \<noteq> ''pending''
                 then quote_requests w' ! i = ?rows ! i
                 else ID (quote_requests w' ! i) = ID (?rows ! i)
                    \<and> From (quote_requests w' ! i) = From (?rows ! i)
                    \<and> To (quote_requests w' ! i) = To (?rows ! i)
                    \<and> CreatedAt (quote_requests w' ! i) = CreatedAt (?rows ! i)
                    \<and> (if usdRates (From (?rows ! i)) = None
                           \<or> usdRates (To (?rows ! i)) = None
                        then Status (quote_requests w' ! i) = ''failed''
                           \<and> find (\<lambda>q. QuoteFrom q = From (?rows ! i)
                                        \<and> QuoteTo q = To (?rows ! i)) (quotes w')
                             = find (\<lambda>q. QuoteFrom q = From (?rows ! i)
                                        \<and> QuoteTo q = To (?rows ! i)) (quotes w)
                        else Status (quote_requests w' ! i) = ''completed''
                           \<and> (\<exists>rate. CalculateExchangeRate (From (?rows ! i))
                                         (To (?rows ! i)) usdRates = Inr rate
                                \<and> map_option Rate
                                    (find (\<lambda>q. QuoteFrom q = From (?rows ! i)
                                            \<and> QuoteTo q = To (?rows ! i))
                                       (quotes w')) = Some rate))"
    if i: "i < length ?rows" for i
  proof (cases "Status (?rows ! i) = ''pending''")
    case False
    have "ID (?rows ! i) \<notin> ID ` set requests"
    proof
      assume "ID (?rows ! i) \<in> ID ` set requests"
      then obtain r where r: "r \<in> set ?rows" "Status r = ''pending''" "ID r = ID (?rows ! i)"
        unfolding req_set by auto
      with inj i have "r = ?rows ! i" by (auto dest: inj_onD)
      with r False show False by simp
    qed
    then have "outcomes usdRates ?groups (ID (?rows ! i)) = None"
      unfolding members [symmetric] by (rule outcomes_outside)
    with written_nth [OF wr i] False show ?thesis by simp
  next
    case True
    let ?r = "?rows ! i"
    from True i have mem: "?r \<in> set (concat (map snd ?groups))"
      unfolding members req_set by simp
    have st: "outcomes usdRates ?groups (ID ?r) = Some (cycle_status usdRates ?r)"
      using share dist mem by (rule outcomes_member)
    from mem obtain g where g: "g \<in> set ?groups" "?r \<in> set (snd g)"
      by auto
    from bspec [OF bspec [OF share g(1)] g(2)] g(1)
    have "(From ?r, To ?r) \<in> (\<lambda>g. (From (hd (snd g)), To (hd (snd g)))) ` set ?groups"
      by (auto simp: image_iff intro!: bexI [of _ g])
    then have qw: "quote_writes usdRates ?groups (From ?r, To ?r)
        = pair_quote usdRates (From ?r, To ?r)"
      by (simp add: quote_writes_eq)
    have upq: "case pair_quote usdRates (From ?r, To ?r) of
         None \<Rightarrow> find (\<lambda>q. QuoteFrom q = From ?r \<and> QuoteTo q = To ?r) (quotes w')
                  = find (\<lambda>q. QuoteFrom q = From ?r \<and> QuoteTo q = To ?r) (quotes w)
       | Some rate \<Rightarrow> map_option Rate
                       (find (\<lambda>q. QuoteFrom q = From ?r \<and> QuoteTo q = To ?r) (quotes w'))
                  = Some rate"
      using upsertedD [OF up, where f = "From ?r" and t = "To ?r"] qw by simp
    note fields = written_nth [OF wr i]
    show ?thesis
    proof (cases "usdRates (From ?r) = None \<or> usdRates (To ?r) = None")
      case missing: True
      then have "pair_quote usdRates (From ?r, To ?r) = None"
        by (rule pair_quote_missing)
      with upq have "find (\<lambda>q. QuoteFrom q = From ?r \<and> QuoteTo q = To ?r) (quotes w')
                  = find (\<lambda>q. QuoteFrom q = From ?r \<and> QuoteTo q = To ?r) (quotes w)"
        by simp
      moreover from missing have "cycle_status usdRates ?r = ''failed''"
        by (simp add: cycle_status_eq)
      ultimately show ?thesis
        using fields st True missing by simp
    next
      case present: False
      from pair_quote_present [OF present]
      obtain rate where rate: "CalculateExchangeRate (From ?r) (To ?r) usdRates = Inr rate"
        "pair_quote usdRates (From ?r, To ?r) = Some rate"
        by blast
      with upq have "map_option Rate
          (find (\<lambda>q. QuoteFrom q = From ?r \<and> QuoteTo q = To ?r) (quotes w')) = Some rate"
        by simp
      moreover from present have "cycle_status usdRates ?r = ''completed''"
        by (simp add: cycle_status_eq)
      ultimately show ?thesis
        using fields st True present rate(1) by simp
    qed
  qed
  from run0 run1 have "processPendingRequests rank http w = (None, w')" by simp
  with written_length [OF wr] row show ?thesis by blast
qed


lemma sample_fresh: "quote_ids_fresh sample_world"
  by (simp add: quote_ids_fresh_def sample_world_def)

lemma sample_no_slash:
  "\<forall>r\<in>set (quote_requests sample_world).
     Status r = ''pending'' \<longrightarrow> CHR ''/'' \<notin> set (From r)"
  by (simp add: sample_world_def sample_requests_def)

theorem C4_group_failure_isolated_witness:
  "\<exists>w'. processPendingRequests (\<lambda>k. 0) partial_response sample_world = (None, w')
      \<and> Status (quote_requests w' ! 0) = ''failed''
      \<and> find (\<lambda>q. QuoteFrom q = ''EUR'' \<and> QuoteTo q = ''MXN'') (quotes w') = None
      \<and> Status (quote_requests w' ! 1) = ''completed''
      \<and> map_option Rate (find (\<lambda>q. QuoteFrom q = ''USD'' \<and> QuoteTo q = ''EUR'') (quotes w'))
          = Some (Finite (17/20))
      \<and> quote_requests w' ! 2 = quote_requests sample_world ! 2"
proof -
  let ?T = "[''EUR'' \<mapsto> 17/20, ''USD'' \<mapsto> (1::rat)]"
  have f: "GetMultipleExchangeRates
      (extractUniqueCurrencies
         [\<lparr>ID = ''1001'', From = ''EUR'', To = ''MXN'', Status = ''pending'',
            CreatedAt = 1001, UpdatedAt = 1001\<rparr>,
           \<lparr>ID = ''1002'', From = ''USD'', To = ''EUR'', Status = ''pending'',
            CreatedAt = 1002, UpdatedAt = 1002\<rparr>]) partial_response = Return (Inr ?T)"
    by (simp add: GetMultipleExchangeRates_def extractUniqueCurrencies_def partial_response_def)
  from C4_group_failure_isolated [OF sample_store_ok sample_fresh sample_no_slash
      sample_discovered _ f, of "\<lambda>k. 0"]
  obtain w' where run: "processPendingRequests (\<lambda>k. 0) partial_response sample_world = (None, w')"
    and rows: "\<forall>i<length (quote_requests sample_world).
                 if Status (quote_requests sample_world ! i) \<noteq> ''pending''
                 then quote_requests w' ! i = quote_requests sample_world ! i
                 else ID (quote_requests w' ! i) = ID (quote_requests sample_world ! i)
                    \<and> From (quote_requests w' ! i) = From (quote_requests sample_world ! i)
                    \<and> To (quote_requests w' ! i) = To (quote_requests sample_world ! i)
                    \<and> CreatedAt (quote_requests w' ! i) = CreatedAt (quote_requests sample_world ! i)
                    \<and> (if ?T (From (quote_requests sample_world ! i)) = None
                           \<or> ?T (To (quote_requests sample_world ! i)) = None
                        then Status (quote_requests w' ! i) = ''failed''
                           \<and> find (\<lambda>q. QuoteFrom q = From (quote_requests sample_world ! i)
                                        \<and> QuoteTo q = To (quote_requests sample_world ! i)) (quotes w')
                             = find (\<lambda>q. QuoteFrom q = From (quote_requests sample_world ! i)
                                        \<and> QuoteTo q = To (quote_requests sample_world ! i))
                                 (quotes sample_world)
                        else Status (quote_requests w' ! i) = ''completed''
                           \<and> (\<exists>rate. CalculateExchangeRate (From (quote_requests sample_world ! i))
                                         (To (quote_requests sample_world ! i)) ?T = Inr rate
                                \<and> map_option Rate
                                    (find (\<lambda>q. QuoteFrom q = From (quote_requests sample_world ! i)
                                            \<and> QuoteTo q = To (quote_requests sample_world ! i))
                                       (quotes w')) = Some rate))"
    by auto
  have r0: "quote_requests sample_world ! 0 =
      \<lparr>ID = ''1001'', From = ''EUR'', To = ''MXN'', Status = ''pending'',
       CreatedAt = 1001, UpdatedAt = 1001\<rparr>"
    and r1: "quote_requests sample_world ! Suc 0 =
      \<lparr>ID = ''1002'', From = ''USD'', To = ''EUR'', Status = ''pending'',
       CreatedAt = 1002, UpdatedAt = 1002\<rparr>"
    and r2: "Status (quote_requests sample_world ! 2) = ''completed''"
    and len: "0 < length (quote_requests sample_world)"
      "Suc 0 < length (quote_requests sample_world)"
      "2 < length (quote_requests sample_world)"
    and q: "quotes sample_world = []"
    by (simp_all add: sample_world_def sample_requests_def)
  from rows [rule_format, OF len(1)]
  have 0: "Status (quote_requests w' ! 0) = ''failed''
      \<and> find (\<lambda>q. QuoteFrom q = ''EUR'' \<and> QuoteTo q = ''MXN'') (quotes w') = None"
    by (simp add: r0 q)
  from rows [rule_format, OF len(2)]
  have 1: "Status (quote_requests w' ! 1) = ''completed''
      \<and> map_option Rate (find (\<lambda>q. QuoteFrom q = ''USD'' \<and> QuoteTo q = ''EUR'') (quotes w'))
          = Some (Finite (17/20))"
    by (simp add: r1 CalculateExchangeRate_def)
  from rows [rule_format, OF len(3)] r2
  have 2: "quote_requests w' ! 2 = quote_requests sample_world ! 2"
    by simp
  from run 0 1 2 show ?thesis by blast
qed

end
